theory Spec2Isabelle
  imports Main
begin

section \<open>The validator of \<^verbatim>\<open>src/validator.js\<close>\<close>

text \<open>
  The class \<^verbatim>\<open>Validator\<close> is embedded with explicit state passing. One record holds
  what a validator instance reads and writes: the two module-level tables
  \<^verbatim>\<open>Rules\<close> and \<^verbatim>\<open>Messages\<close> (imported objects, shared by all instances) and the
  instance members \<^verbatim>\<open>locale\<close>, \<^verbatim>\<open>validations\<close> and \<^verbatim>\<open>errorBag\<close>.
  A method that can throw returns a pair of a result (\<open>Inl\<close> the exception) and the state as
  it stands when the method returns or throws, so that a mutation made before a throw stays
  visible. The imported tables are given by what a lookup in them yields: a missing key is
  \<open>None\<close> (JavaScript's \<^verbatim>\<open>undefined\<close>). The object \<^verbatim>\<open>this.validations\<close>, which the
  class creates itself as a plain \<^verbatim>\<open>{}\<close>, is modelled with its own keys and its prototype.
\<close>

subsection \<open>Data\<close>

datatype error = TypeError | ValidatorException string

text \<open>The object literal \<^verbatim>\<open>{ name, params }\<close> built by \<^verbatim>\<open>normalizeRule\<close>;
  \<^verbatim>\<open>params\<close> is \<^verbatim>\<open>null\<close> (\<open>None\<close>) or an array of strings.\<close>

record ruleSpec =
  name :: string
  params :: "string list option"

text \<open>One element of the array an asynchronous rule resolves to; \<^verbatim>\<open>test\<close> reads its
  \<^verbatim>\<open>valid\<close> member only.\<close>

record subCheck =
  valid :: bool

text \<open>What a rule predicate returns: a boolean at once, or a \<^verbatim>\<open>Promise\<close>, given here by
  the array it resolves to. A promise that never resolves never runs its callback and has no
  value in this type.\<close>

datatype predResult = Immediate bool | Promise "subCheck list"

type_synonym 'v predicate = "'v \<Rightarrow> string list option \<Rightarrow> predResult"

type_synonym formatter = "string \<Rightarrow> string list option \<Rightarrow> string"

text \<open>An entry of a locale's message table: a function, or any other value
  (\<^verbatim>\<open>typeof\<close> different from \<^verbatim>\<open>'function'\<close>).\<close>

datatype msgEntry = Callable formatter | NonCallable

record errorEntry =
  field :: string
  message :: string

text \<open>Modelled from the spec: the class \<^verbatim>\<open>ErrorBag\<close> of \<^verbatim>\<open>./errorBag\<close> is not part of
  the sources. The spec gives it as a mapping from a field name to the ordered sequence of
  that field's entries, with three operations: \<^verbatim>\<open>add(field, message)\<close> appends an entry in
  order, \<^verbatim>\<open>remove(field)\<close> deletes all entries of that field, \<^verbatim>\<open>clear()\<close> deletes all
  entries of all fields. A field without entries maps to the empty sequence.\<close>

type_synonym errorBag = "string \<Rightarrow> errorEntry list"

definition new_ErrorBag :: errorBag where
  "new_ErrorBag = (\<lambda>_. [])"

definition errorBag_add :: "errorBag \<Rightarrow> string \<Rightarrow> string \<Rightarrow> errorBag" where
  "errorBag_add bag f m = bag(f := bag f @ [\<lparr>field = f, message = m\<rparr>])"

definition errorBag_remove :: "errorBag \<Rightarrow> string \<Rightarrow> errorBag" where
  "errorBag_remove bag f = bag(f := [])"

definition errorBag_clear :: "errorBag \<Rightarrow> errorBag" where
  "errorBag_clear bag = (\<lambda>_. [])"

text \<open>An entry of \<^verbatim>\<open>Rules\<close>: a function, or any other value, of which only its truthiness
  is read (\<^verbatim>\<open>undefined\<close> is \<open>NotFunction False\<close>).\<close>

datatype 'v ruleEntry = Predicate "'v predicate" | NotFunction bool

text \<open>The member names every plain object inherits from \<^verbatim>\<open>Object.prototype\<close>: the
  standard ones and those of the standard's annex for web browsers. Their values are
  functions, but for \<^verbatim>\<open>__proto__\<close>, an accessor that reads and replaces the prototype.\<close>

definition Object_prototype :: "string list" where
  "Object_prototype =
     [''constructor'', ''hasOwnProperty'', ''isPrototypeOf'', ''propertyIsEnumerable'',
      ''toLocaleString'', ''toString'', ''valueOf'', ''__proto__'', ''__defineGetter__'',
      ''__defineSetter__'', ''__lookupGetter__'', ''__lookupSetter__'']"

text \<open>The object \<^verbatim>\<open>this.validations\<close>: its own keys, each holding an array of rules, and
  its prototype. The prototype is \<^verbatim>\<open>Object.prototype\<close> (\<open>None\<close>) until an assignment to
  the key \<^verbatim>\<open>__proto__\<close> replaces it by the assigned array (\<open>Some\<close>).\<close>

record chains =
  own :: "string \<rightharpoonup> ruleSpec list"
  proto :: "ruleSpec list option"

text \<open>\<^verbatim>\<open>this.validations[name]\<close> where it yields an array: an own key, or through the
  accessor \<^verbatim>\<open>__proto__\<close> the prototype when it is an array. Every other inherited value (a
  function, a number, a rule object, \<^verbatim>\<open>Object.prototype\<close>) and \<^verbatim>\<open>undefined\<close> have neither
  \<^verbatim>\<open>forEach\<close> nor \<^verbatim>\<open>push\<close>; they are \<open>None\<close>.\<close>

definition get_chain :: "chains \<Rightarrow> string \<Rightarrow> ruleSpec list option" where
  "get_chain vs k =
     (case own vs k of
        Some c \<Rightarrow> Some c
      | None \<Rightarrow> if k = ''__proto__'' then proto vs else None)"

text \<open>\<^verbatim>\<open>this.validations[name] = array\<close>: an existing own key is overwritten; otherwise
  the key \<^verbatim>\<open>__proto__\<close> reaches the inherited setter, which replaces the prototype and
  creates no key; every other key is created (the inherited members are writable data
  properties).\<close>

definition set_chain :: "chains \<Rightarrow> string \<Rightarrow> ruleSpec list \<Rightarrow> chains" where
  "set_chain vs k c =
     (if k = ''__proto__'' \<and> own vs k = None then vs\<lparr>proto := Some c\<rparr>
      else vs\<lparr>own := (own vs)(k \<mapsto> c)\<rparr>)"

text \<open>\<^verbatim>\<open>this.validations[name].push(rule)\<close>: the array found by the lookup grows in place;
  a \<^verbatim>\<open>TypeError\<close> when the lookup yields no array.\<close>

definition push_chain :: "chains \<Rightarrow> string \<Rightarrow> ruleSpec \<Rightarrow> error + chains" where
  "push_chain vs k r =
     (case own vs k of
        Some c \<Rightarrow> Inr (vs\<lparr>own := (own vs)(k \<mapsto> c @ [r])\<rparr>)
      | None \<Rightarrow>
          if k = ''__proto__'' then
            (case proto vs of
               Some c \<Rightarrow> Inr (vs\<lparr>proto := Some (c @ [r])\<rparr>)
             | None \<Rightarrow> Inl TypeError)
          else Inl TypeError)"

text \<open>\<^verbatim>\<open>delete this.validations[name]\<close>: removes an own key, and nothing when there is
  none.\<close>

definition delete_chain :: "chains \<Rightarrow> string \<Rightarrow> chains" where
  "delete_chain vs k = vs\<lparr>own := (own vs)(k := None)\<rparr>"

text \<open>The state: \<^verbatim>\<open>Rules\<close> and \<^verbatim>\<open>Messages\<close> are the imported tables (their contents are
  not part of the sources, so they are arbitrary here); \<open>currentLocale\<close> is the member
  \<^verbatim>\<open>this.locale\<close>.\<close>

record 'v state =
  Rules :: "string \<rightharpoonup> 'v ruleEntry"
  Messages :: "string \<rightharpoonup> (string \<rightharpoonup> msgEntry)"
  currentLocale :: string
  validations :: chains
  errorBag :: errorBag

text \<open>The value \<^verbatim>\<open>validate\<close> and \<^verbatim>\<open>test\<close> hand back: a boolean, or the promise that
  \<^verbatim>\<open>valid.then(...)\<close> returns. The promise is given by what its callback closes over: the
  field name, the rule and the array the rule's own promise resolves to.\<close>

record pending =
  p_field :: string
  p_rule :: ruleSpec
  p_values :: "subCheck list"

datatype testResult = Now bool | Later pending

text \<open>The member \<^verbatim>\<open>messages\<close> of a validator object, by what the code reads of it: its
  \<^verbatim>\<open>typeof\<close>, its truthiness and its keys. \<^verbatim>\<open>null\<close> has \<^verbatim>\<open>typeof\<close> \<^verbatim>\<open>'object'\<close> and is
  falsy; an object is given by its own keys in order; any other value (\<^verbatim>\<open>undefined\<close>, a
  primitive, a function) has another \<^verbatim>\<open>typeof\<close>, and is given by its truthiness and by what
  \<^verbatim>\<open>Object.keys\<close> makes of it (\<open>None\<close>: it throws a \<^verbatim>\<open>TypeError\<close>, as engines before
  ES2015 do on a primitive). \<^verbatim>\<open>undefined\<close> is \<open>M_other False None\<close>.\<close>

datatype messagesMember =
    M_null
  | M_object "(string \<times> msgEntry) list"
  | M_other bool "(string \<times> msgEntry) list option"

text \<open>A validator object. \<^verbatim>\<open>validate\<close> is any value, as an entry of \<^verbatim>\<open>Rules\<close>;
  \<^verbatim>\<open>getMessage\<close> is a function or not (\<open>None\<close>: any value whose \<^verbatim>\<open>typeof\<close> is not
  \<^verbatim>\<open>'function'\<close>, the only thing the code reads of it).\<close>

record 'v validatorObj =
  v_validate :: "'v ruleEntry"
  v_getMessage :: "formatter option"
  v_messages :: messagesMember

text \<open>The second argument of \<^verbatim>\<open>extend\<close>: a function, an object, \<^verbatim>\<open>null\<close> or
  \<^verbatim>\<open>undefined\<close> (reading a member of it throws a \<^verbatim>\<open>TypeError\<close>), or a primitive (every
  member reads as \<^verbatim>\<open>undefined\<close>).\<close>

datatype 'v validatorSpec =
    Function "'v predicate"
  | Object "'v validatorObj"
  | Nullish
  | Primitive

subsection \<open>Strings and arrays\<close>

text \<open>\<^verbatim>\<open>s.split(sep)\<close> for a separator of one character: the pieces between the
  occurrences of the separator, empty pieces kept; never the empty array.\<close>

fun split_str :: "char \<Rightarrow> string \<Rightarrow> string list" where
  "split_str sep [] = [[]]"
| "split_str sep (c # cs) =
     (if c = sep then [] # split_str sep cs
      else (c # hd (split_str sep cs)) # tl (split_str sep cs))"

text \<open>\<^verbatim>\<open>parts.join(sep)\<close>, used to state that splitting loses nothing.\<close>

fun join_str :: "char \<Rightarrow> string list \<Rightarrow> string" where
  "join_str sep [] = []"
| "join_str sep [p] = p"
| "join_str sep (p # q # ps) = p @ sep # join_str sep (q # ps)"

text \<open>\<^verbatim>\<open>xs[i]\<close>: \<^verbatim>\<open>undefined\<close> (\<open>None\<close>) out of range.\<close>

definition index :: "'a list \<Rightarrow> nat \<Rightarrow> 'a option" where
  "index xs i = (if i < length xs then Some (xs ! i) else None)"

subsection \<open>Parsing rule expressions\<close>

text \<open>\<^verbatim>\<open>normalizeRule(rule)\<close>. The test \<^verbatim>\<open>~rule.indexOf(':')\<close> holds when the rule
  contains a colon. \<^verbatim>\<open>rule.split(':')[1].split(',')\<close> throws a \<^verbatim>\<open>TypeError\<close> when
  element 1 is \<^verbatim>\<open>undefined\<close>.\<close>

definition normalizeRule :: "string \<Rightarrow> error + ruleSpec" where
  "normalizeRule rule =
     (if CHR '':'' \<in> set rule then
        (case index (split_str CHR '':'' rule) 1 of
           None \<Rightarrow> Inl TypeError
         | Some seg \<Rightarrow>
             Inr \<lparr>name = hd (split_str CHR '':'' rule),
                  params = Some (split_str CHR '','' seg)\<rparr>)
      else Inr \<lparr>name = hd (split_str CHR '':'' rule), params = None\<rparr>)"

text \<open>The inner \<^verbatim>\<open>forEach\<close> of \<^verbatim>\<open>normalize\<close>. \<^verbatim>\<open>normalized\<close> is a fresh plain
  \<^verbatim>\<open>{}\<close>, given here by its own keys; its prototype stays \<^verbatim>\<open>Object.prototype\<close>. The
  test \<^verbatim>\<open>!normalized[property]\<close> holds when the property is neither an own key nor an
  inherited member (those are truthy), and only then the empty array is stored. The
  \<^verbatim>\<open>push\<close> throws a \<^verbatim>\<open>TypeError\<close> when \<^verbatim>\<open>normalized[property]\<close> is an inherited
  member.\<close>

fun normalize_rules ::
  "(string \<rightharpoonup> ruleSpec list) \<Rightarrow> string \<Rightarrow> string list \<Rightarrow> error + (string \<rightharpoonup> ruleSpec list)" where
  "normalize_rules nz p [] = Inr nz"
| "normalize_rules nz p (rule # rules) =
     (let nz1 = (if nz p = None \<and> p \<notin> set Object_prototype then nz(p \<mapsto> []) else nz) in
      case normalizeRule rule of
        Inl e \<Rightarrow> Inl e
      | Inr r \<Rightarrow>
          (case nz1 p of
             None \<Rightarrow> Inl TypeError
           | Some chain \<Rightarrow> normalize_rules (nz1(p \<mapsto> chain @ [r])) p rules))"

text \<open>The outer \<^verbatim>\<open>forEach\<close> over \<^verbatim>\<open>Object.keys(validations)\<close>, in key order.\<close>

fun normalize_props ::
  "(string \<rightharpoonup> ruleSpec list) \<Rightarrow> (string \<times> string) list \<Rightarrow> error + (string \<rightharpoonup> ruleSpec list)" where
  "normalize_props nz [] = Inr nz"
| "normalize_props nz ((p, expr) # rest) =
     (case normalize_rules nz p (split_str CHR ''|'' expr) of
        Inl e \<Rightarrow> Inl e
      | Inr nz' \<Rightarrow> normalize_props nz' rest)"

text \<open>\<^verbatim>\<open>normalize(validations)\<close>; a missing argument is \<open>None\<close>.\<close>

definition normalize :: "(string \<times> string) list option \<Rightarrow> error + chains" where
  "normalize vs =
     (case vs of
        None \<Rightarrow> Inr \<lparr>own = Map.empty, proto = None\<rparr>
      | Some kvs \<Rightarrow>
          (case normalize_props Map.empty kvs of
             Inl e \<Rightarrow> Inl e
           | Inr nz \<Rightarrow> Inr \<lparr>own = nz, proto = None\<rparr>))"

text \<open>The constructor (and \<^verbatim>\<open>Validator.create\<close>), given the two imported tables.\<close>

definition create ::
  "(string \<rightharpoonup> 'v ruleEntry) \<Rightarrow> (string \<rightharpoonup> (string \<rightharpoonup> msgEntry)) \<Rightarrow>
   (string \<times> string) list option \<Rightarrow> error + 'v state" where
  "create rs ms vs =
     (case normalize vs of
        Inl e \<Rightarrow> Inl e
      | Inr nz \<Rightarrow>
          Inr \<lparr>Rules = rs, Messages = ms, currentLocale = ''en'', validations = nz,
               errorBag = new_ErrorBag\<rparr>)"

definition setLocale :: "'v state \<Rightarrow> string \<Rightarrow> 'v state" where
  "setLocale s language = s\<lparr>currentLocale := language\<rparr>"

text \<open>The \<^verbatim>\<open>forEach\<close> of \<^verbatim>\<open>attach\<close>: \<^verbatim>\<open>this.validations[name].push(...)\<close>.\<close>

fun attach_rules :: "'v state \<Rightarrow> string \<Rightarrow> string list \<Rightarrow> (error + unit) \<times> 'v state" where
  "attach_rules s n [] = (Inr (), s)"
| "attach_rules s n (rule # rules) =
     (case normalizeRule rule of
        Inl e \<Rightarrow> (Inl e, s)
      | Inr r \<Rightarrow>
          (case push_chain (validations s) n r of
             Inl e \<Rightarrow> (Inl e, s)
           | Inr vs \<Rightarrow> attach_rules (s\<lparr>validations := vs\<rparr>) n rules))"

definition attach :: "'v state \<Rightarrow> string \<Rightarrow> string \<Rightarrow> (error + unit) \<times> 'v state" where
  "attach s n checks =
     attach_rules
       (s\<lparr>validations := set_chain (validations s) n [],
          errorBag := errorBag_remove (errorBag s) n\<rparr>)
       n (split_str CHR ''|'' checks)"

definition detach :: "'v state \<Rightarrow> string \<Rightarrow> 'v state" where
  "detach s n = s\<lparr>validations := delete_chain (validations s) n\<rparr>"

subsection \<open>Messages\<close>

text \<open>Calling a table entry: a \<^verbatim>\<open>TypeError\<close> unless it is a function.\<close>

definition invoke :: "msgEntry option \<Rightarrow> string \<Rightarrow> string list option \<Rightarrow> error + string" where
  "invoke e f ps = (case e of Some (Callable g) \<Rightarrow> Inr (g f ps) | _ \<Rightarrow> Inl TypeError)"

definition is_function :: "msgEntry option \<Rightarrow> bool" where
  "is_function e = (case e of Some (Callable g) \<Rightarrow> True | _ \<Rightarrow> False)"

text \<open>\<^verbatim>\<open>Messages.en[rule.name](field, rule.params)\<close>.\<close>

definition english :: "'v state \<Rightarrow> string \<Rightarrow> ruleSpec \<Rightarrow> error + string" where
  "english s f rule =
     (case Messages s ''en'' of
        None \<Rightarrow> Inl TypeError
      | Some en \<Rightarrow> invoke (en (name rule)) f (params rule))"

definition formatErrorMessage :: "'v state \<Rightarrow> string \<Rightarrow> ruleSpec \<Rightarrow> error + string" where
  "formatErrorMessage s f rule =
     (case Messages s (currentLocale s) of
        None \<Rightarrow> english s f rule
      | Some cat \<Rightarrow>
          if \<not> is_function (cat (name rule)) then english s f rule
          else invoke (cat (name rule)) f (params rule))"

subsection \<open>Running rules\<close>

text \<open>\<^verbatim>\<open>test(name, value, rule)\<close>. Calling a missing rule, or an entry that is not a
  function, is a \<^verbatim>\<open>TypeError\<close>. For a promise, \<^verbatim>\<open>then\<close> only registers the callback:
  nothing is written now.\<close>

definition test :: "'v state \<Rightarrow> string \<Rightarrow> 'v \<Rightarrow> ruleSpec \<Rightarrow> (error + testResult) \<times> 'v state" where
  "test s n v rule =
     (case Rules s (name rule) of
        Some (Predicate validator) \<Rightarrow>
          (case validator v (params rule) of
             Promise vals \<Rightarrow> (Inr (Later \<lparr>p_field = n, p_rule = rule, p_values = vals\<rparr>), s)
           | Immediate ok \<Rightarrow>
               if \<not> ok then
                 (case formatErrorMessage s n rule of
                    Inl e \<Rightarrow> (Inl e, s)
                  | Inr m \<Rightarrow> (Inr (Now ok), s\<lparr>errorBag := errorBag_add (errorBag s) n m\<rparr>))
               else (Inr (Now ok), s))
      | _ \<Rightarrow> (Inl TypeError, s))"

text \<open>The callback given to \<^verbatim>\<open>then\<close>, run when the rule's promise has resolved, on the
  state of that moment; its result is what the promise returned by \<^verbatim>\<open>test\<close> resolves to
  (\<open>Inl\<close>: it rejects).\<close>

definition test_then :: "'v state \<Rightarrow> pending \<Rightarrow> (error + bool) \<times> 'v state" where
  "test_then s p =
     (let allValid = foldl (\<lambda>prev curr. prev \<and> valid curr) True (p_values p) in
      if \<not> allValid then
        (case formatErrorMessage s (p_field p) (p_rule p) of
           Inl e \<Rightarrow> (Inl e, s)
         | Inr m \<Rightarrow> (Inr allValid, s\<lparr>errorBag := errorBag_add (errorBag s) (p_field p) m\<rparr>))
      else (Inr allValid, s))"

text \<open>The \<^verbatim>\<open>forEach\<close> of \<^verbatim>\<open>validate\<close>; the last argument is the variable \<^verbatim>\<open>test\<close>.\<close>

fun validate_rules ::
  "'v state \<Rightarrow> string \<Rightarrow> 'v \<Rightarrow> ruleSpec list \<Rightarrow> testResult \<Rightarrow> (error + testResult) \<times> 'v state" where
  "validate_rules s n v [] t = (Inr t, s)"
| "validate_rules s n v (rule # rules) t =
     (case test s n v rule of
        (Inl e, s') \<Rightarrow> (Inl e, s')
      | (Inr t', s') \<Rightarrow> validate_rules s' n v rules t')"

text \<open>\<^verbatim>\<open>validate(name, value)\<close>: \<^verbatim>\<open>this.validations[name].forEach\<close> throws a
  \<^verbatim>\<open>TypeError\<close> when the lookup yields no array, after the field's errors were
  removed.\<close>

definition validate :: "'v state \<Rightarrow> string \<Rightarrow> 'v \<Rightarrow> (error + testResult) \<times> 'v state" where
  "validate s n v =
     (let s1 = s\<lparr>errorBag := errorBag_remove (errorBag s) n\<rparr> in
      case get_chain (validations s1) n of
        None \<Rightarrow> (Inl TypeError, s1)
      | Some chain \<Rightarrow> validate_rules s1 n v chain (Now True))"

text \<open>The \<^verbatim>\<open>forEach\<close> of \<^verbatim>\<open>validateAll\<close> over \<^verbatim>\<open>Object.keys(values)\<close>; the object is
  given by its properties in key order.\<close>

fun validateAll_props ::
  "'v state \<Rightarrow> (string \<times> 'v) list \<Rightarrow> testResult \<Rightarrow> (error + testResult) \<times> 'v state" where
  "validateAll_props s [] t = (Inr t, s)"
| "validateAll_props s ((p, v) # rest) t =
     (case validate s p v of
        (Inl e, s') \<Rightarrow> (Inl e, s')
      | (Inr t', s') \<Rightarrow> validateAll_props s' rest t')"

definition validateAll :: "'v state \<Rightarrow> (string \<times> 'v) list \<Rightarrow> (error + testResult) \<times> 'v state" where
  "validateAll s vals =
     validateAll_props (s\<lparr>errorBag := errorBag_clear (errorBag s)\<rparr>) vals (Now True)"

subsection \<open>Extension\<close>

text \<open>The truthiness of \<^verbatim>\<open>Rules[name]\<close>, and \<^verbatim>\<open>typeof\<close> tests.\<close>

definition truthy :: "'v ruleEntry option \<Rightarrow> bool" where
  "truthy e = (case e of None \<Rightarrow> False | Some (Predicate p) \<Rightarrow> True | Some (NotFunction b) \<Rightarrow> b)"

definition is_predicate :: "'v ruleEntry \<Rightarrow> bool" where
  "is_predicate e = (case e of Predicate p \<Rightarrow> True | NotFunction b \<Rightarrow> False)"

definition typeof_object :: "messagesMember \<Rightarrow> bool" where
  "typeof_object m = (case m of M_null \<Rightarrow> True | M_object ms \<Rightarrow> True | M_other b ks \<Rightarrow> False)"

text \<open>\<^verbatim>\<open>guardExtend(name, validator)\<close>. Reading \<^verbatim>\<open>validator.validate\<close> throws a
  \<^verbatim>\<open>TypeError\<close> on \<^verbatim>\<open>null\<close> and \<^verbatim>\<open>undefined\<close>; on a primitive every member is
  \<^verbatim>\<open>undefined\<close>.\<close>

definition guardExtend :: "'v state \<Rightarrow> string \<Rightarrow> 'v validatorSpec \<Rightarrow> error + unit" where
  "guardExtend s n vd =
     (if truthy (Rules s n) then
        Inl (ValidatorException
          (''Extension Error: There is an existing validator with the same name ''
            @ [CHR 0x27] @ n @ [CHR 0x27] @ ''.''))
      else
        (case vd of
           Function f \<Rightarrow> Inr ()
         | Nullish \<Rightarrow> Inl TypeError
         | Primitive \<Rightarrow>
             Inl (ValidatorException
               (''Extension Error: The validator '' @ [CHR 0x27] @ n @ [CHR 0x27]
                 @ '' must be a function or have a '' @ [CHR 0x27] @ ''validate''
                 @ [CHR 0x27] @ '' method.''))
         | Object ob \<Rightarrow>
             if \<not> is_predicate (v_validate ob) then
               Inl (ValidatorException
                 (''Extension Error: The validator '' @ [CHR 0x27] @ n @ [CHR 0x27]
                   @ '' must be a function or have a '' @ [CHR 0x27] @ ''validate''
                   @ [CHR 0x27] @ '' method.''))
             else if v_getMessage ob = None \<and> \<not> typeof_object (v_messages ob) then
               Inl (ValidatorException
                 (''Extension Error: The validator '' @ [CHR 0x27] @ n @ [CHR 0x27]
                   @ '' must have a '' @ [CHR 0x27] @ ''getMessage'' @ [CHR 0x27]
                   @ '' method or have a '' @ [CHR 0x27] @ ''messages'' @ [CHR 0x27]
                   @ '' object.''))
             else Inr ()))"

text \<open>\<^verbatim>\<open>Messages.en[name] = entry\<close>: a \<^verbatim>\<open>TypeError\<close> when \<^verbatim>\<open>Messages.en\<close> is missing.\<close>

definition set_english :: "'v state \<Rightarrow> string \<Rightarrow> msgEntry \<Rightarrow> (error + unit) \<times> 'v state" where
  "set_english s n e =
     (case Messages s ''en'' of
        None \<Rightarrow> (Inl TypeError, s)
      | Some en \<Rightarrow> (Inr (), s\<lparr>Messages := (Messages s)(''en'' \<mapsto> en(n \<mapsto> e))\<rparr>))"

text \<open>The \<^verbatim>\<open>forEach\<close> of \<^verbatim>\<open>merge\<close> over the locales of \<^verbatim>\<open>validator.messages\<close>. The
  message tables are given by what a lookup yields, as the imported \<^verbatim>\<open>Messages\<close> is; a
  table created here starts with no entries.\<close>

fun merge_messages :: "'v state \<Rightarrow> string \<Rightarrow> (string \<times> msgEntry) list \<Rightarrow> 'v state" where
  "merge_messages s n [] = s"
| "merge_messages s n ((loc, e) # rest) =
     merge_messages
       (s\<lparr>Messages := (Messages s)(loc \<mapsto>
           (case Messages s loc of None \<Rightarrow> Map.empty | Some cat \<Rightarrow> cat)(n \<mapsto> e))\<rparr>)
       n rest"

text \<open>\<^verbatim>\<open>merge(name, validator)\<close>. The test \<^verbatim>\<open>if (validator.messages)\<close> is one of
  truthiness: \<^verbatim>\<open>null\<close> is skipped, and a truthy value of any kind goes to
  \<^verbatim>\<open>Object.keys\<close>.\<close>

definition merge :: "'v state \<Rightarrow> string \<Rightarrow> 'v validatorSpec \<Rightarrow> (error + unit) \<times> 'v state" where
  "merge s n vd =
     (case vd of
        Function f \<Rightarrow>
          set_english (s\<lparr>Rules := (Rules s)(n \<mapsto> Predicate f)\<rparr>) n
            (Callable (\<lambda>fld _. ''The '' @ fld @ '' value is not valid.''))
      | Nullish \<Rightarrow> (Inl TypeError, s)
      | Primitive \<Rightarrow> (Inr (), s\<lparr>Rules := (Rules s)(n \<mapsto> NotFunction False)\<rparr>)
      | Object ob \<Rightarrow>
          (let s1 = s\<lparr>Rules := (Rules s)(n \<mapsto> v_validate ob)\<rparr> in
           case (case v_getMessage ob of
                   None \<Rightarrow> (Inr (), s1)
                 | Some g \<Rightarrow> set_english s1 n (Callable g)) of
             (Inl e, s2) \<Rightarrow> (Inl e, s2)
           | (Inr _, s2) \<Rightarrow>
               (case v_messages ob of
                  M_null \<Rightarrow> (Inr (), s2)
                | M_object ms \<Rightarrow> (Inr (), merge_messages s2 n ms)
                | M_other b ks \<Rightarrow>
                    if b then
                      (case ks of
                         None \<Rightarrow> (Inl TypeError, s2)
                       | Some ms \<Rightarrow> (Inr (), merge_messages s2 n ms))
                    else (Inr (), s2))))"

definition extend :: "'v state \<Rightarrow> string \<Rightarrow> 'v validatorSpec \<Rightarrow> (error + unit) \<times> 'v state" where
  "extend s n vd =
     (case guardExtend s n vd of
        Inl e \<Rightarrow> (Inl e, s)
      | Inr _ \<Rightarrow> merge s n vd)"

subsection \<open>A configuration to run the code on\<close>

text \<open>The built-in rules and messages are not part of the sources. The checks below run
  the code on a small configuration of its own: three rules over string values (one of
  them asynchronous, resolving to one passing and one failing sub-check), English messages
  for all three and a French table that has a formatter for \<^verbatim>\<open>required\<close> only.\<close>

definition ex_required :: "string predicate" where
  "ex_required v ps = Immediate (v \<noteq> [])"

definition ex_in :: "string predicate" where
  "ex_in v ps = Immediate (case ps of None \<Rightarrow> False | Some xs \<Rightarrow> v \<in> set xs)"

definition ex_remote :: "string predicate" where
  "ex_remote v ps = Promise [\<lparr>valid = True\<rparr>, \<lparr>valid = False\<rparr>]"

definition ex_Rules :: "string \<rightharpoonup> string ruleEntry" where
  "ex_Rules =
     [''required'' \<mapsto> Predicate ex_required, ''in'' \<mapsto> Predicate ex_in,
      ''remote'' \<mapsto> Predicate ex_remote]"

definition ex_in_message :: formatter where
  "ex_in_message f ps = ''The '' @ f @ '' field must be a valid value.''"

definition ex_en :: "string \<rightharpoonup> msgEntry" where
  "ex_en =
     [''required'' \<mapsto> Callable (\<lambda>f ps. ''The '' @ f @ '' field is required.''),
      ''in'' \<mapsto> Callable ex_in_message,
      ''remote'' \<mapsto> Callable (\<lambda>f ps. ''The '' @ f @ '' value is not valid.'')]"

definition ex_fr :: "string \<rightharpoonup> msgEntry" where
  "ex_fr =
     [''required'' \<mapsto> Callable (\<lambda>f ps. ''Le champ '' @ f @ '' est obligatoire.''),
      ''in'' \<mapsto> NonCallable]"

definition ex_Messages :: "string \<rightharpoonup> (string \<rightharpoonup> msgEntry)" where
  "ex_Messages = [''en'' \<mapsto> ex_en, ''fr'' \<mapsto> ex_fr]"

definition ex_state :: "string state" where
  "ex_state =
     \<lparr>Rules = ex_Rules, Messages = ex_Messages, currentLocale = ''en'',
      validations =
        \<lparr>own =
           [''color'' \<mapsto> [\<lparr>name = ''in'', params = Some [''red'', ''blue'']\<rparr>,
                            \<lparr>name = ''required'', params = None\<rparr>],
            ''a'' \<mapsto> [\<lparr>name = ''required'', params = None\<rparr>],
            ''b'' \<mapsto> [\<lparr>name = ''required'', params = None\<rparr>],
            ''email'' \<mapsto> [\<lparr>name = ''remote'', params = None\<rparr>]],
         proto = None\<rparr>,
      errorBag = new_ErrorBag\<rparr>"

text \<open>The promise \<^verbatim>\<open>test\<close> returns for the rule \<^verbatim>\<open>remote\<close> on the field \<^verbatim>\<open>email\<close>.\<close>

definition ex_pending :: pending where
  "ex_pending =
     \<lparr>p_field = ''email'', p_rule = \<lparr>name = ''remote'', params = None\<rparr>,
      p_values = [\<lparr>valid = True\<rparr>, \<lparr>valid = False\<rparr>]\<rparr>"

section \<open>String splitting\<close>

lemma split_str_not_Nil: "split_str sep s \<noteq> []"
  by (induction s) auto

lemma split_str_no_sep: "sep \<notin> set s \<Longrightarrow> split_str sep s = [s]"
  by (induction s) auto

lemma split_str_append_sep:
  "sep \<notin> set a \<Longrightarrow> split_str sep (a @ sep # b) = a # split_str sep b"
  by (induction a) auto

lemma join_split_str: "join_str sep (split_str sep s) = s"
proof (induction s)
  case Nil
  then show ?case by simp
next
  case (Cons c cs)
  obtain w ws where sp: "split_str sep cs = w # ws"
    using split_str_not_Nil [of sep cs] by (cases "split_str sep cs") auto
  with Cons show ?case by (cases ws) auto
qed

lemma hd_split_str: "hd (split_str sep s) = takeWhile (\<lambda>c. c \<noteq> sep) s"
  by (induction s) auto

lemma tl_split_str:
  "tl (split_str sep s) =
     (if sep \<in> set s then split_str sep (tl (dropWhile (\<lambda>c. c \<noteq> sep) s)) else [])"
  by (induction s) auto

lemma index_1_split_str:
  "sep \<in> set s \<Longrightarrow>
   index (split_str sep s) (Suc 0) =
     Some (takeWhile (\<lambda>c. c \<noteq> sep) (tl (dropWhile (\<lambda>c. c \<noteq> sep) s)))"
proof -
  assume a: "sep \<in> set s"
  obtain w ws where sp: "split_str sep s = w # ws"
    using split_str_not_Nil [of sep s] by (cases "split_str sep s") auto
  let ?r = "tl (dropWhile (\<lambda>c. c \<noteq> sep) s)"
  have ws: "ws = split_str sep ?r"
    using tl_split_str [of sep s] a sp by simp
  obtain u us where sr: "split_str sep ?r = u # us"
    using split_str_not_Nil [of sep ?r] by (cases "split_str sep ?r") auto
  have "u = takeWhile (\<lambda>c. c \<noteq> sep) ?r"
    using hd_split_str [of sep ?r] sr by simp
  with sp ws sr show ?thesis by (simp add: index_def)
qed

section \<open>Parsing one rule\<close>

text \<open>\<^verbatim>\<open>normalizeRule\<close> never throws: the guard on \<^verbatim>\<open>indexOf\<close> makes element 1 of the
  split exist. The name is the text before the first colon; the parameters come from the
  text between the first colon and the second one (or the end).\<close>

lemma normalizeRule_eq:
  "normalizeRule rule =
     Inr \<lparr>name = takeWhile (\<lambda>c. c \<noteq> CHR '':'') rule,
          params =
            (if CHR '':'' \<in> set rule then
               Some (split_str CHR '','' (takeWhile (\<lambda>c. c \<noteq> CHR '':'')
                 (tl (dropWhile (\<lambda>c. c \<noteq> CHR '':'') rule))))
             else None)\<rparr>"
  by (simp add: normalizeRule_def hd_split_str index_1_split_str)

text \<open>C4, as stated, fails: the claim has \<^verbatim>\<open>params\<close> as the comma-split of everything
  after the first colon, so that \<^verbatim>\<open>"r:a:b"\<close> would give \<^verbatim>\<open>["a:b"]\<close>. The code takes
  \<^verbatim>\<open>rule.split(':')[1]\<close>, the second piece of a split at every colon, and
  \<^verbatim>\<open>"r:a:b"\<close> gives \<^verbatim>\<open>["a"]\<close>.\<close>

theorem normalizeRule_second_colon_counterexample:
  "normalizeRule ''r:a:b'' = Inr \<lparr>name = ''r'', params = Some [''a'']\<rparr> \<and>
   normalizeRule ''r:a:b'' \<noteq> Inr \<lparr>name = ''r'', params = Some (split_str CHR '','' ''a:b'')\<rparr>"
  by (simp add: normalizeRule_def index_def)

text \<open>C4, amended: for every rule expression, the name is the text before the first
  colon, and when the expression contains a colon, \<^verbatim>\<open>params\<close> is the comma-split of the
  text between the first colon and the second colon (or the end of the expression when there
  is no second colon); whatever follows a second colon is dropped. An expression of the
  shape \<open>n:p:rest\<close> therefore parses as \<open>n:p\<close> does.\<close>

theorem normalizeRule_params_between_colons:
  "normalizeRule rule =
     Inr \<lparr>name = takeWhile (\<lambda>c. c \<noteq> CHR '':'') rule,
          params =
            (if CHR '':'' \<in> set rule then
               Some (split_str CHR '','' (takeWhile (\<lambda>c. c \<noteq> CHR '':'')
                 (tl (dropWhile (\<lambda>c. c \<noteq> CHR '':'') rule))))
             else None)\<rparr>"
  by (rule normalizeRule_eq)

section \<open>Parsing expressions\<close>

lemma normalizeRule_total: "\<exists>r. normalizeRule rule = Inr r"
  by (simp add: normalizeRule_eq)

text \<open>For a property that is not an inherited member name, the loop appends the parsed
  rules to the property's chain.\<close>

lemma normalize_rules_eq:
  assumes "p \<notin> set Object_prototype"
  shows "\<exists>chain. map Inr chain = map normalizeRule rules \<and>
     normalize_rules nz p rules =
       Inr (if rules = [] then nz
            else nz(p \<mapsto> (case nz p of None \<Rightarrow> [] | Some old \<Rightarrow> old) @ chain))"
proof (induction rules arbitrary: nz)
  case Nil
  then show ?case by simp
next
  case (Cons rule rules)
  obtain r where r: "normalizeRule rule = Inr r"
    using normalizeRule_total by blast
  let ?old = "case nz p of None \<Rightarrow> [] | Some old \<Rightarrow> old"
  let ?nz = "nz(p \<mapsto> ?old @ [r])"
  have step: "normalize_rules nz p (rule # rules) = normalize_rules ?nz p rules"
    using r assms by (cases "nz p") (simp_all add: Let_def)
  obtain chain where c: "map Inr chain = map normalizeRule rules"
    and n: "normalize_rules ?nz p rules =
       Inr (if rules = [] then ?nz
            else ?nz(p \<mapsto> (case ?nz p of None \<Rightarrow> [] | Some old \<Rightarrow> old) @ chain))"
    using Cons.IH [of ?nz] by blast
  have m: "map Inr (r # chain) = map normalizeRule (rule # rules)"
    using r c by simp
  have e: "normalize_rules nz p (rule # rules) = Inr (nz(p \<mapsto> ?old @ r # chain))"
  proof (cases "rules = []")
    case True
    with c have "chain = []" by simp
    with True step show ?thesis by simp
  next
    case False
    with step n show ?thesis by simp
  qed
  show ?case
  proof (intro exI conjI)
    show "map Inr (r # chain) = map normalizeRule (rule # rules)" by (rule m)
    show "normalize_rules nz p (rule # rules) =
       Inr (if rule # rules = [] then nz else nz(p \<mapsto> ?old @ r # chain))"
      unfolding e by simp
  qed
qed

text \<open>For an inherited member name the first \<^verbatim>\<open>push\<close> throws.\<close>

lemma normalize_rules_inherited:
  "p \<in> set Object_prototype \<Longrightarrow> nz p = None \<Longrightarrow>
   normalize_rules nz p (rule # rules) = Inl TypeError"
  using normalizeRule_total [of rule] by (auto simp: Let_def)

lemma normalize_single:
  assumes "f \<notin> set Object_prototype"
  shows "\<exists>chain. normalize (Some [(f, expr)]) = Inr \<lparr>own = [f \<mapsto> chain], proto = None\<rparr> \<and>
     map Inr chain = map normalizeRule (split_str CHR ''|'' expr)"
proof -
  obtain chain where c: "map Inr chain = map normalizeRule (split_str CHR ''|'' expr)"
    and n: "normalize_rules Map.empty f (split_str CHR ''|'' expr) =
       Inr (if split_str CHR ''|'' expr = [] then Map.empty
            else Map.empty(f \<mapsto> (case Map.empty f of None \<Rightarrow> [] | Some old \<Rightarrow> old) @ chain))"
    using normalize_rules_eq [OF assms, of "split_str CHR ''|'' expr" Map.empty] by blast
  from n have "normalize (Some [(f, expr)]) = Inr \<lparr>own = [f \<mapsto> chain], proto = None\<rparr>"
    by (simp add: normalize_def split_str_not_Nil)
  with c show ?thesis by blast
qed

lemma get_set_chain: "get_chain (set_chain vs k c) k = Some c"
  by (simp add: get_chain_def set_chain_def)

lemma push_set_chain: "push_chain (set_chain vs k c) k r = Inr (set_chain vs k (c @ [r]))"
  by (simp add: push_chain_def set_chain_def)

lemma attach_rules_eq:
  "\<exists>chain. map Inr chain = map normalizeRule rules \<and>
     attach_rules (s\<lparr>validations := set_chain vs n c\<rparr>) n rules =
       (Inr (), s\<lparr>validations := set_chain vs n (c @ chain)\<rparr>)"
proof (induction rules arbitrary: c)
  case Nil
  show ?case by (intro exI [of _ "[]"] conjI) simp_all
next
  case (Cons rule rules)
  obtain r where r: "normalizeRule rule = Inr r"
    using normalizeRule_total by blast
  obtain chain where c: "map Inr chain = map normalizeRule rules"
    and a: "attach_rules (s\<lparr>validations := set_chain vs n (c @ [r])\<rparr>) n rules =
      (Inr (), s\<lparr>validations := set_chain vs n ((c @ [r]) @ chain)\<rparr>)"
    using Cons.IH [of "c @ [r]"] by blast
  have m: "map Inr (r # chain) = map normalizeRule (rule # rules)"
    using r c by simp
  have e: "attach_rules (s\<lparr>validations := set_chain vs n c\<rparr>) n (rule # rules) =
      (Inr (), s\<lparr>validations := set_chain vs n (c @ r # chain)\<rparr>)"
    using r a by (simp add: push_set_chain)
  show ?case
    by (intro exI conjI) (rule m, rule e)
qed

lemma attach_eq:
  "\<exists>chain. map Inr chain = map normalizeRule (split_str CHR ''|'' checks) \<and>
     attach s n checks =
       (Inr (), s\<lparr>validations := set_chain (validations s) n chain,
                  errorBag := errorBag_remove (errorBag s) n\<rparr>)"
proof -
  let ?s = "s\<lparr>errorBag := errorBag_remove (errorBag s) n\<rparr>"
  obtain chain where c: "map Inr chain = map normalizeRule (split_str CHR ''|'' checks)"
    and a: "attach_rules (?s\<lparr>validations := set_chain (validations s) n []\<rparr>) n
        (split_str CHR ''|'' checks) =
      (Inr (), ?s\<lparr>validations := set_chain (validations s) n ([] @ chain)\<rparr>)"
    using attach_rules_eq [where rules = "split_str CHR ''|'' checks" and s = ?s
        and vs = "validations s" and n = n and c = "[]"] by blast
  have comm: "s\<lparr>validations := x, errorBag := errorBag_remove (errorBag s) n\<rparr> =
      ?s\<lparr>validations := x\<rparr>" for x
    by simp
  have "attach s n checks =
       (Inr (), s\<lparr>validations := set_chain (validations s) n chain,
                  errorBag := errorBag_remove (errorBag s) n\<rparr>)"
    unfolding attach_def comm a by simp
  with c show ?thesis by blast
qed

lemma attach_get_chain:
  "\<exists>chain. map Inr chain = map normalizeRule (split_str CHR ''|'' checks) \<and>
     fst (attach s n checks) = Inr () \<and>
     get_chain (validations (snd (attach s n checks))) n = Some chain"
proof -
  obtain chain where c: "map Inr chain = map normalizeRule (split_str CHR ''|'' checks)"
    and a: "attach s n checks =
       (Inr (), s\<lparr>validations := set_chain (validations s) n chain,
                  errorBag := errorBag_remove (errorBag s) n\<rparr>)"
    using attach_eq by blast
  have "get_chain (validations (snd (attach s n checks))) n = Some chain"
    unfolding a by (simp add: get_set_chain)
  moreover have "fst (attach s n checks) = Inr ()"
    unfolding a by simp
  ultimately show ?thesis using c by blast
qed

lemma parse_example:
  "map normalizeRule (split_str CHR ''|'' ''a:x,y|b'') =
     [Inr \<lparr>name = ''a'', params = Some [''x'', ''y'']\<rparr>, Inr \<lparr>name = ''b'', params = None\<rparr>]"
  by (simp add: normalizeRule_def index_def)

lemma map_Inr_two: "map Inr chain = [Inr a, Inr b] \<Longrightarrow> chain = [a, b]"
  by (auto simp: map_eq_Cons_conv)

text \<open>C5: the expression \<^verbatim>\<open>"a:x,y|b"\<close> parses to the chain of the two rules
  \<^verbatim>\<open>{name: "a", params: ["x", "y"]}\<close> and \<^verbatim>\<open>{name: "b", params: null}\<close>. In general
  the expression is split at every \<^verbatim>\<open>|\<close> and each piece is parsed by \<^verbatim>\<open>normalizeRule\<close>,
  in order: \<^verbatim>\<open>attach\<close> stores that chain for every field name, and \<^verbatim>\<open>normalize\<close> does
  for every field name that is not a member name of \<^verbatim>\<open>Object.prototype\<close> (for those its
  \<^verbatim>\<open>push\<close> throws a \<^verbatim>\<open>TypeError\<close>). A rule without a colon is its own name and has no
  parameters; in a rule with one colon the name is the text before it and the parameters are
  the comma-split of the text after it, as raw strings: joining them with commas gives that
  text back, so nothing is trimmed or converted.\<close>

theorem parse_expression:
  "(\<exists>chain. map Inr chain = map normalizeRule (split_str CHR ''|'' expr) \<and>
      fst (attach s f expr) = Inr () \<and>
      get_chain (validations (snd (attach s f expr))) f = Some chain) \<and>
   get_chain (validations (snd (attach s f ''a:x,y|b''))) f =
     Some [\<lparr>name = ''a'', params = Some [''x'', ''y'']\<rparr>, \<lparr>name = ''b'', params = None\<rparr>] \<and>
   (f \<notin> set Object_prototype \<longrightarrow>
      normalize (Some [(f, ''a:x,y|b'')]) =
        Inr \<lparr>own = [f \<mapsto> [\<lparr>name = ''a'', params = Some [''x'', ''y'']\<rparr>,
                          \<lparr>name = ''b'', params = None\<rparr>]],
             proto = None\<rparr> \<and>
      (\<exists>chain. normalize (Some [(f, expr)]) = Inr \<lparr>own = [f \<mapsto> chain], proto = None\<rparr> \<and>
         map Inr chain = map normalizeRule (split_str CHR ''|'' expr))) \<and>
   (f \<in> set Object_prototype \<longrightarrow> normalize (Some [(f, expr)]) = Inl TypeError) \<and>
   (CHR '':'' \<notin> set rule \<longrightarrow> normalizeRule rule = Inr \<lparr>name = rule, params = None\<rparr>) \<and>
   (CHR '':'' \<notin> set n \<and> CHR '':'' \<notin> set ps \<longrightarrow>
      normalizeRule (n @ '':'' @ ps) = Inr \<lparr>name = n, params = Some (split_str CHR '','' ps)\<rparr>) \<and>
   join_str CHR '','' (split_str CHR '','' ps) = ps"
proof (intro conjI impI)
  let ?ab = "[\<lparr>name = ''a'', params = Some [''x'', ''y'']\<rparr>, \<lparr>name = ''b'', params = None\<rparr>]"
  show "\<exists>chain. map Inr chain = map normalizeRule (split_str CHR ''|'' expr) \<and>
      fst (attach s f expr) = Inr () \<and>
      get_chain (validations (snd (attach s f expr))) f = Some chain"
    by (rule attach_get_chain)
  show "get_chain (validations (snd (attach s f ''a:x,y|b''))) f = Some ?ab"
  proof -
    obtain chain where c: "map Inr chain = map normalizeRule (split_str CHR ''|'' ''a:x,y|b'')"
      and g: "get_chain (validations (snd (attach s f ''a:x,y|b''))) f = Some chain"
      using attach_get_chain [of "''a:x,y|b''" s f] by blast
    from c have "chain = ?ab" unfolding parse_example by (rule map_Inr_two)
    with g show ?thesis by simp
  qed
  show "normalize (Some [(f, ''a:x,y|b'')]) = Inr \<lparr>own = [f \<mapsto> ?ab], proto = None\<rparr>"
    if h: "f \<notin> set Object_prototype"
  proof -
    obtain chain where n: "normalize (Some [(f, ''a:x,y|b'')]) =
        Inr \<lparr>own = [f \<mapsto> chain], proto = None\<rparr>"
      and c: "map Inr chain = map normalizeRule (split_str CHR ''|'' ''a:x,y|b'')"
      using normalize_single [OF h, of "''a:x,y|b''"] by blast
    from c have "chain = ?ab" unfolding parse_example by (rule map_Inr_two)
    with n show ?thesis by simp
  qed
  show "\<exists>chain. normalize (Some [(f, expr)]) = Inr \<lparr>own = [f \<mapsto> chain], proto = None\<rparr> \<and>
         map Inr chain = map normalizeRule (split_str CHR ''|'' expr)"
    if "f \<notin> set Object_prototype"
    using that by (rule normalize_single)
  show "normalize (Some [(f, expr)]) = Inl TypeError" if "f \<in> set Object_prototype"
  proof -
    obtain w ws where sp: "split_str CHR ''|'' expr = w # ws"
      using split_str_not_Nil [of "CHR ''|''" expr] by (cases "split_str CHR ''|'' expr") auto
    have "normalize_rules Map.empty f (w # ws) = Inl TypeError"
      using that by (intro normalize_rules_inherited) simp_all
    then show ?thesis by (simp add: normalize_def sp)
  qed
  show "normalizeRule rule = Inr \<lparr>name = rule, params = None\<rparr>" if "CHR '':'' \<notin> set rule"
    using that by (simp add: normalizeRule_def split_str_no_sep)
  show "normalizeRule (n @ '':'' @ ps) = Inr \<lparr>name = n, params = Some (split_str CHR '','' ps)\<rparr>"
    if "CHR '':'' \<notin> set n \<and> CHR '':'' \<notin> set ps"
    using that by (simp add: normalizeRule_def split_str_append_sep split_str_no_sep index_def)
  show "join_str CHR '','' (split_str CHR '','' ps) = ps"
    by (rule join_split_str)
qed

text \<open>C5 at the field names \<^verbatim>\<open>f\<close> and \<^verbatim>\<open>constructor\<close> and at the rules \<^verbatim>\<open>"b"\<close> and
  \<^verbatim>\<open>"a:x,y"\<close>.\<close>

theorem parse_expression_witness:
  "''f'' \<notin> set Object_prototype \<and>
   normalize (Some [(''f'', ''a:x,y|b'')]) =
     Inr \<lparr>own = [''f'' \<mapsto> [\<lparr>name = ''a'', params = Some [''x'', ''y'']\<rparr>,
                          \<lparr>name = ''b'', params = None\<rparr>]],
          proto = None\<rparr> \<and>
   ''constructor'' \<in> set Object_prototype \<and>
   normalize (Some [(''constructor'', ''a:x,y|b'')]) = Inl TypeError \<and>
   CHR '':'' \<notin> set ''b'' \<and> normalizeRule ''b'' = Inr \<lparr>name = ''b'', params = None\<rparr> \<and>
   CHR '':'' \<notin> set ''a'' \<and> CHR '':'' \<notin> set ''x,y'' \<and>
   normalizeRule ''a:x,y'' = Inr \<lparr>name = ''a'', params = Some [''x'', ''y'']\<rparr>"
proof -
  have 1: "''f'' \<notin> set Object_prototype" and 2: "''constructor'' \<in> set Object_prototype"
    by (simp_all add: Object_prototype_def)
  note a = parse_expression [where s = ex_state and f = "''f''" and expr = "''a:x,y|b''"
      and rule = "''b''" and n = "''a''" and ps = "''x,y''"]
  note b = parse_expression [where s = ex_state and f = "''constructor''"
      and expr = "''a:x,y|b''"]
  from a 1 have 3: "normalize (Some [(''f'', ''a:x,y|b'')]) =
     Inr \<lparr>own = [''f'' \<mapsto> [\<lparr>name = ''a'', params = Some [''x'', ''y'']\<rparr>,
                          \<lparr>name = ''b'', params = None\<rparr>]],
          proto = None\<rparr>"
    by blast
  from b 2 have 4: "normalize (Some [(''constructor'', ''a:x,y|b'')]) = Inl TypeError"
    by blast
  from a have 5: "normalizeRule ''b'' = Inr \<lparr>name = ''b'', params = None\<rparr>"
    and 6: "normalizeRule ''a:x,y'' = Inr \<lparr>name = ''a'', params = Some [''x'', ''y'']\<rparr>"
    by simp_all
  from 1 2 3 4 5 6 show ?thesis by simp
qed

section \<open>Running a chain\<close>

text \<open>Formatting a message reads the message tables and the locale only.\<close>

lemma english_errorBag [simp]:
  "english (s\<lparr>errorBag := b\<rparr>) f r = english s f r"
  by (simp add: english_def)

lemma formatErrorMessage_errorBag [simp]:
  "formatErrorMessage (s\<lparr>errorBag := b\<rparr>) f r = formatErrorMessage s f r"
  by (simp add: formatErrorMessage_def split: option.splits)

lemma test_result_errorBag:
  "fst (test (s\<lparr>errorBag := b\<rparr>) n v r) = fst (test s n v r)"
  by (simp add: test_def split: option.splits ruleEntry.splits predResult.splits sum.splits)

lemma test_state:
  "snd (test s n v r) = s\<lparr>errorBag := errorBag (snd (test s n v r))\<rparr>"
  by (simp add: test_def split: option.splits ruleEntry.splits predResult.splits sum.splits)

lemma validate_rules_result_errorBag:
  "fst (validate_rules (s\<lparr>errorBag := b\<rparr>) n v chain t) = fst (validate_rules s n v chain t)"
proof (induction chain arbitrary: s b t)
  case Nil
  then show ?case by simp
next
  case (Cons r chain)
  obtain x s1 where t1: "test s n v r = (x, s1)" by (cases "test s n v r")
  obtain y s2 where t2: "test (s\<lparr>errorBag := b\<rparr>) n v r = (y, s2)"
    by (cases "test (s\<lparr>errorBag := b\<rparr>) n v r")
  have xy: "y = x" using test_result_errorBag [where s = s and b = b and n = n and v = v and r = r] t1 t2 by simp
  have s1: "s1 = s\<lparr>errorBag := errorBag s1\<rparr>" using test_state [of s n v r] t1 by simp
  have "s2 = (s\<lparr>errorBag := b\<rparr>)\<lparr>errorBag := errorBag s2\<rparr>"
    using test_state [of "s\<lparr>errorBag := b\<rparr>" n v r] t2 by simp
  then have s2: "s2 = s1\<lparr>errorBag := errorBag s2\<rparr>" using s1 by (metis state.update_convs(5) state.surjective state.simps)
  show ?case
  proof (cases x)
    case (Inl e)
    with t1 t2 xy show ?thesis by simp
  next
    case (Inr t')
    have "fst (validate_rules s2 n v chain t') = fst (validate_rules s1 n v chain t')"
      using Cons.IH [where s = s1 and b = "errorBag s2" and t = t'] s2 by simp
    with t1 t2 xy Inr show ?thesis by simp
  qed
qed

text \<open>Run from any error bag \<open>b\<close>, \<^verbatim>\<open>test\<close> returns what it returns from the bag of
  \<open>s\<close>, and appends to the entries of the field what it appends to an empty bag.\<close>

lemma test_errorBag:
  "test (s\<lparr>errorBag := b\<rparr>) n v r =
     (fst (test s n v r),
      s\<lparr>errorBag := b(n := b n @ errorBag (snd (test (s\<lparr>errorBag := new_ErrorBag\<rparr>) n v r)) n)\<rparr>)"
  by (simp add: test_def errorBag_add_def new_ErrorBag_def
      split: option.splits ruleEntry.splits predResult.splits sum.splits)

lemma validate_rules_errorBag:
  "validate_rules (s\<lparr>errorBag := b\<rparr>) n v chain t =
     (fst (validate_rules s n v chain t),
      s\<lparr>errorBag := b(n := b n @
         errorBag (snd (validate_rules (s\<lparr>errorBag := new_ErrorBag\<rparr>) n v chain t)) n)\<rparr>)"
proof (induction chain arbitrary: b t)
  case Nil
  show ?case by (simp add: new_ErrorBag_def)
next
  case (Cons r chain)
  define x where "x = fst (test s n v r)"
  define a where "a = errorBag (snd (test (s\<lparr>errorBag := new_ErrorBag\<rparr>) n v r)) n"
  have tb: "test (s\<lparr>errorBag := b\<rparr>) n v r = (x, s\<lparr>errorBag := b(n := b n @ a)\<rparr>)"
    unfolding x_def a_def by (rule test_errorBag)
  have tn: "test (s\<lparr>errorBag := new_ErrorBag\<rparr>) n v r =
      (x, s\<lparr>errorBag := new_ErrorBag(n := a)\<rparr>)"
    unfolding x_def a_def
    using test_errorBag [where s = s and b = new_ErrorBag and n = n and v = v and r = r]
    by (simp add: new_ErrorBag_def)
  obtain c where ts: "test s n v r = (x, s\<lparr>errorBag := c\<rparr>)"
    unfolding x_def
    using test_errorBag [where s = s and b = "errorBag s" and n = n and v = v and r = r]
    by simp
  show ?case
  proof (cases x)
    case (Inl e)
    have 1: "validate_rules (s\<lparr>errorBag := b\<rparr>) n v (r # chain) t =
        (Inl e, s\<lparr>errorBag := b(n := b n @ a)\<rparr>)"
      using tb Inl by simp
    have 2: "validate_rules (s\<lparr>errorBag := new_ErrorBag\<rparr>) n v (r # chain) t =
        (Inl e, s\<lparr>errorBag := new_ErrorBag(n := a)\<rparr>)"
      using tn Inl by simp
    have 3: "fst (validate_rules s n v (r # chain) t) = Inl e"
      using ts Inl by simp
    have 4: "errorBag (snd (Inl e :: error + testResult, s\<lparr>errorBag := new_ErrorBag(n := a)\<rparr>)) n = a"
      by simp
    show ?thesis
      unfolding 1 2 3 4 ..
  next
    case (Inr t')
    have 1: "validate_rules (s\<lparr>errorBag := b\<rparr>) n v (r # chain) t =
        validate_rules (s\<lparr>errorBag := b(n := b n @ a)\<rparr>) n v chain t'"
      using tb Inr by simp
    have 2: "validate_rules (s\<lparr>errorBag := new_ErrorBag\<rparr>) n v (r # chain) t =
        validate_rules (s\<lparr>errorBag := new_ErrorBag(n := a)\<rparr>) n v chain t'"
      using tn Inr by simp
    have 3: "fst (validate_rules s n v (r # chain) t) = fst (validate_rules s n v chain t')"
      using ts Inr validate_rules_result_errorBag [where s = s and b = c] by simp
    define w where
      "w = errorBag (snd (validate_rules (s\<lparr>errorBag := new_ErrorBag\<rparr>) n v chain t')) n"
    have 4: "validate_rules (s\<lparr>errorBag := new_ErrorBag(n := a)\<rparr>) n v chain t' =
        (fst (validate_rules s n v chain t'),
         s\<lparr>errorBag := (new_ErrorBag(n := a))(n := (new_ErrorBag(n := a)) n @ w)\<rparr>)"
      unfolding w_def by (rule Cons.IH)
    have 5: "errorBag (snd (validate_rules (s\<lparr>errorBag := new_ErrorBag(n := a)\<rparr>) n v chain t')) n
        = a @ w"
      unfolding 4 by simp
    have 6: "validate_rules (s\<lparr>errorBag := b(n := b n @ a)\<rparr>) n v chain t' =
        (fst (validate_rules s n v chain t'),
         s\<lparr>errorBag := (b(n := b n @ a))(n := (b(n := b n @ a)) n @ w)\<rparr>)"
      unfolding w_def by (rule Cons.IH)
    have 7: "(b(n := b n @ a))(n := (b(n := b n @ a)) n @ w) = b(n := b n @ a @ w)"
      by simp
    show ?thesis
      unfolding 1 2 3 5 6 7 ..
  qed
qed

lemma validate_rules_last:
  "\<forall>r \<in> set chain. \<exists>t. fst (test s n v r) = Inr t \<Longrightarrow>
   fst (validate_rules s n v chain t0) =
     (if chain = [] then Inr t0 else fst (test s n v (last chain)))"
proof (induction chain arbitrary: s t0)
  case Nil
  then show ?case by simp
next
  case (Cons r chain)
  obtain t' where x: "fst (test s n v r) = Inr t'" using Cons.prems by auto
  obtain c where ts: "test s n v r = (Inr t', s\<lparr>errorBag := c\<rparr>)"
    using test_errorBag [where s = s and b = "errorBag s" and n = n and v = v and r = r] x
    by simp
  have "\<forall>q \<in> set chain. \<exists>t. fst (test (s\<lparr>errorBag := c\<rparr>) n v q) = Inr t"
    using Cons.prems by (simp add: test_result_errorBag)
  from Cons.IH [OF this]
  have "fst (validate_rules (s\<lparr>errorBag := c\<rparr>) n v chain t') =
     (if chain = [] then Inr t' else fst (test s n v (last chain)))"
    by (simp add: test_result_errorBag)
  with ts x show ?case by simp
qed

section \<open>\<^verbatim>\<open>validate\<close>\<close>

lemma validate_unfold:
  "validate s n v =
     (case get_chain (validations s) n of
        None \<Rightarrow> (Inl TypeError, s\<lparr>errorBag := errorBag_remove (errorBag s) n\<rparr>)
      | Some chain \<Rightarrow>
          validate_rules (s\<lparr>errorBag := errorBag_remove (errorBag s) n\<rparr>) n v chain (Now True))"
  by (simp add: validate_def Let_def)

lemma validate_state:
  "snd (validate s n v) = s\<lparr>errorBag := errorBag (snd (validate s n v))\<rparr>"
proof (cases "get_chain (validations s) n")
  case None
  then show ?thesis by (simp add: validate_unfold)
next
  case (Some chain)
  then have 1: "validate s n v =
      validate_rules (s\<lparr>errorBag := errorBag_remove (errorBag s) n\<rparr>) n v chain (Now True)"
    by (simp add: validate_unfold)
  show ?thesis
    unfolding 1 by (subst validate_rules_errorBag, subst (2) validate_rules_errorBag) simp
qed

lemma validate_entries_errorBag:
  "errorBag (snd (validate (s\<lparr>errorBag := b\<rparr>) n v)) n = errorBag (snd (validate s n v)) n"
proof (cases "get_chain (validations s) n")
  case None
  then show ?thesis by (simp add: validate_unfold errorBag_remove_def)
next
  case (Some chain)
  have 1: "validate (s\<lparr>errorBag := c\<rparr>) n v =
      validate_rules (s\<lparr>errorBag := errorBag_remove c n\<rparr>) n v chain (Now True)" for c
    using Some by (simp add: validate_unfold)
  have 2: "errorBag (snd (validate (s\<lparr>errorBag := c\<rparr>) n v)) n =
      errorBag (snd (validate_rules (s\<lparr>errorBag := new_ErrorBag\<rparr>) n v chain (Now True))) n" for c
    unfolding 1 by (subst validate_rules_errorBag) (simp add: errorBag_remove_def)
  have "errorBag (snd (validate (s\<lparr>errorBag := errorBag s\<rparr>) n v)) n =
      errorBag (snd (validate_rules (s\<lparr>errorBag := new_ErrorBag\<rparr>) n v chain (Now True))) n"
    by (rule 2)
  then have 3: "errorBag (snd (validate s n v)) n =
      errorBag (snd (validate_rules (s\<lparr>errorBag := new_ErrorBag\<rparr>) n v chain (Now True))) n"
    by simp
  show ?thesis unfolding 2 3 ..
qed

lemma validate_twice_entries:
  "errorBag (snd (validate (snd (validate s n v)) n v)) n = errorBag (snd (validate s n v)) n"
  by (subst validate_state) (rule validate_entries_errorBag)

lemma validate_result_last:
  assumes "get_chain (validations s) n = Some chain"
    and "\<forall>r \<in> set chain. \<exists>t. fst (test s n v r) = Inr t"
  shows "fst (validate s n v) =
     (if chain = [] then Inr (Now True) else fst (test s n v (last chain)))"
proof -
  have "fst (validate s n v) = fst (validate_rules s n v chain (Now True))"
    using assms(1) by (simp add: validate_unfold validate_rules_result_errorBag)
  then show ?thesis using validate_rules_last [OF assms(2)] by simp
qed

lemma test_Immediate:
  "Rules s (name r) = Some (Predicate p) \<Longrightarrow> p v (params r) = Immediate ok \<Longrightarrow>
   fst (test s n v r) = Inr t \<Longrightarrow> t = Now ok"
  by (simp add: test_def split: sum.splits if_splits)

lemmas ex_defs = ex_state_def ex_Rules_def ex_Messages_def ex_en_def ex_fr_def
  ex_in_message_def ex_required_def ex_in_def ex_remote_def new_ErrorBag_def get_chain_def

lemmas run_defs = validate_def get_chain_def test_def formatErrorMessage_def english_def
  invoke_def is_function_def errorBag_add_def errorBag_remove_def errorBag_clear_def Let_def

text \<open>C1: for a field whose chain is attached and whose rules evaluate without throwing
  (each rule is registered, and a failing rule has a message formatter), \<^verbatim>\<open>validate\<close>
  returns \<^verbatim>\<open>true\<close> when the chain is empty and otherwise what \<^verbatim>\<open>test\<close> returns for
  the last rule of the chain, whatever the earlier rules returned; when the last rule is
  synchronous this is its boolean. It is not the conjunction: in the configuration above the
  first rule of \<^verbatim>\<open>color\<close> fails on \<^verbatim>\<open>"green"\<close>, the last one passes, and \<^verbatim>\<open>validate\<close>
  returns \<^verbatim>\<open>true\<close>.\<close>

theorem validate_returns_last_rule:
  assumes "get_chain (validations s) n = Some chain"
    and "\<forall>r \<in> set chain. \<exists>t. fst (test s n v r) = Inr t"
  shows "fst (validate s n v) =
           (if chain = [] then Inr (Now True) else fst (test s n v (last chain))) \<and>
         (chain \<noteq> [] \<and> Rules s (name (last chain)) = Some (Predicate p) \<and>
          p v (params (last chain)) = Immediate ok \<longrightarrow>
            fst (validate s n v) = Inr (Now ok))"
proof (intro conjI impI)
  show 1: "fst (validate s n v) =
           (if chain = [] then Inr (Now True) else fst (test s n v (last chain)))"
    using assms by (rule validate_result_last)
  assume a: "chain \<noteq> [] \<and> Rules s (name (last chain)) = Some (Predicate p) \<and>
          p v (params (last chain)) = Immediate ok"
  then have "last chain \<in> set chain" by simp
  then obtain t where t: "fst (test s n v (last chain)) = Inr t"
    using assms(2) by blast
  with a have "t = Now ok" using test_Immediate [of s "last chain" p v ok n t] by simp
  with 1 t a show "fst (validate s n v) = Inr (Now ok)" by simp
qed

text \<open>C1 on the field \<^verbatim>\<open>color\<close> with the value \<^verbatim>\<open>"green"\<close>: the rule \<^verbatim>\<open>in\<close> fails, the
  rule \<^verbatim>\<open>required\<close> passes, the result is \<^verbatim>\<open>true\<close>.\<close>

theorem validate_returns_last_rule_witness:
  "get_chain (validations ex_state) ''color'' =
     Some [\<lparr>name = ''in'', params = Some [''red'', ''blue'']\<rparr>, \<lparr>name = ''required'', params = None\<rparr>] \<and>
   fst (test ex_state ''color'' ''green'' \<lparr>name = ''in'', params = Some [''red'', ''blue'']\<rparr>) =
     Inr (Now False) \<and>
   fst (test ex_state ''color'' ''green'' \<lparr>name = ''required'', params = None\<rparr>) = Inr (Now True) \<and>
   fst (validate ex_state ''color'' ''green'') = Inr (Now True)"
proof -
  let ?chain = "[\<lparr>name = ''in'', params = Some [''red'', ''blue'']\<rparr>, \<lparr>name = ''required'', params = None\<rparr>]"
  have 1: "get_chain (validations ex_state) ''color'' = Some ?chain"
    by (simp add: ex_defs)
  have 2: "fst (test ex_state ''color'' ''green'' \<lparr>name = ''in'', params = Some [''red'', ''blue'']\<rparr>) =
     Inr (Now False)"
    by (simp add: ex_defs run_defs)
  have 3: "fst (test ex_state ''color'' ''green'' \<lparr>name = ''required'', params = None\<rparr>) = Inr (Now True)"
    by (simp add: ex_defs run_defs)
  have 4: "\<forall>r \<in> set ?chain. \<exists>t. fst (test ex_state ''color'' ''green'' r) = Inr t"
    using 2 3 by simp
  have "fst (validate ex_state ''color'' ''green'') = Inr (Now True)"
    using validate_returns_last_rule [OF 1 4] 3 by simp
  with 1 2 3 show ?thesis by simp
qed

section \<open>\<^verbatim>\<open>validateAll\<close>\<close>

lemma validateAll_props_snoc:
  "validateAll_props s (vals @ [(p, v)]) t =
     (case validateAll_props s vals t of
        (Inl e, s1) \<Rightarrow> (Inl e, s1)
      | (Inr _, s1) \<Rightarrow> validate s1 p v)"
proof (induction vals arbitrary: s t)
  case Nil
  show ?case by (simp split: prod.splits sum.splits)
next
  case (Cons kv vals)
  obtain k w where kv: "kv = (k, w)" by (cases kv)
  show ?case
    unfolding kv by (simp add: Cons.IH split: prod.splits sum.splits)
qed

lemma validate_single_rule:
  assumes "get_chain (validations s) n = Some [r]" and "Rules s (name r) = Some (Predicate p)"
    and "p v (params r) = Immediate ok" and "ok \<or> formatErrorMessage s n r = Inr m"
  shows "validate s n v =
     (Inr (Now ok),
      s\<lparr>errorBag := (errorBag s)(n := if ok then [] else [\<lparr>field = n, message = m\<rparr>])\<rparr>)"
  using assms
  by (auto simp add: validate_def test_def Let_def errorBag_remove_def errorBag_add_def)

text \<open>C2: \<^verbatim>\<open>validateAll\<close> first clears the whole error bag (what the bag held before has
  no effect, and with no keys the result is \<^verbatim>\<open>true\<close> on an empty bag), then calls
  \<^verbatim>\<open>validate\<close> once per key in key order, and returns what the call for the last key
  returned: the results of the earlier keys are dropped. In particular, with one rule attached
  to each of two fields, failing on the value of the first and passing on the value of the
  second, \<^verbatim>\<open>validateAll\<close> returns \<^verbatim>\<open>true\<close> while the first field has its recorded
  error.\<close>

theorem validateAll_returns_last_field:
  "validateAll (s\<lparr>errorBag := b\<rparr>) vals = validateAll s vals \<and>
   validateAll s [] = (Inr (Now True), s\<lparr>errorBag := new_ErrorBag\<rparr>) \<and>
   validateAll s (vals @ [(k, v)]) =
     (case validateAll s vals of
        (Inl e, s1) \<Rightarrow> (Inl e, s1)
      | (Inr _, s1) \<Rightarrow> validate s1 k v) \<and>
   (a \<noteq> b' \<and> get_chain (validations s) a = Some [r] \<and> get_chain (validations s) b' = Some [r] \<and>
    Rules s (name r) = Some (Predicate p) \<and> p va (params r) = Immediate False \<and>
    p vb (params r) = Immediate True \<and> formatErrorMessage s a r = Inr m \<longrightarrow>
      fst (validateAll s [(a, va), (b', vb)]) = Inr (Now True) \<and>
      errorBag (snd (validateAll s [(a, va), (b', vb)])) a = [\<lparr>field = a, message = m\<rparr>])"
proof (intro conjI impI)
  show "validateAll (s\<lparr>errorBag := b\<rparr>) vals = validateAll s vals"
    by (simp add: validateAll_def errorBag_clear_def)
  show "validateAll s [] = (Inr (Now True), s\<lparr>errorBag := new_ErrorBag\<rparr>)"
    by (simp add: validateAll_def errorBag_clear_def new_ErrorBag_def)
  show "validateAll s (vals @ [(k, v)]) =
     (case validateAll s vals of
        (Inl e, s1) \<Rightarrow> (Inl e, s1)
      | (Inr _, s1) \<Rightarrow> validate s1 k v)"
    by (simp only: validateAll_def validateAll_props_snoc)
next
  assume h: "a \<noteq> b' \<and> get_chain (validations s) a = Some [r] \<and> get_chain (validations s) b' = Some [r] \<and>
    Rules s (name r) = Some (Predicate p) \<and> p va (params r) = Immediate False \<and>
    p vb (params r) = Immediate True \<and> formatErrorMessage s a r = Inr m"
  let ?s0 = "s\<lparr>errorBag := errorBag_clear (errorBag s)\<rparr>"
  have 1: "validate ?s0 a va =
      (Inr (Now False), ?s0\<lparr>errorBag := (errorBag ?s0)(a := [\<lparr>field = a, message = m\<rparr>])\<rparr>)"
    using h validate_single_rule [of ?s0 a r p va False m] by simp
  let ?s1 = "?s0\<lparr>errorBag := (errorBag ?s0)(a := [\<lparr>field = a, message = m\<rparr>])\<rparr>"
  have 2: "validate ?s1 b' vb = (Inr (Now True), ?s1\<lparr>errorBag := (errorBag ?s1)(b' := [])\<rparr>)"
    using h validate_single_rule [of ?s1 b' r p vb True m] by simp
  have 3: "validateAll s [(a, va), (b', vb)] =
      (Inr (Now True), ?s1\<lparr>errorBag := (errorBag ?s1)(b' := [])\<rparr>)"
    unfolding validateAll_def validateAll_props.simps 1 prod.case sum.case 2 ..
  show "fst (validateAll s [(a, va), (b', vb)]) = Inr (Now True)"
    unfolding 3 by simp
  show "errorBag (snd (validateAll s [(a, va), (b', vb)])) a = [\<lparr>field = a, message = m\<rparr>]"
    unfolding 3 using h by simp
qed

text \<open>C2 on the fields \<^verbatim>\<open>a\<close> (empty value, \<^verbatim>\<open>required\<close> fails) and \<^verbatim>\<open>b\<close>
  (\<^verbatim>\<open>required\<close> passes).\<close>

theorem validateAll_returns_last_field_witness:
  "''a'' \<noteq> ''b'' \<and>
   get_chain (validations ex_state) ''a'' = Some [\<lparr>name = ''required'', params = None\<rparr>] \<and>
   get_chain (validations ex_state) ''b'' = Some [\<lparr>name = ''required'', params = None\<rparr>] \<and>
   Rules ex_state ''required'' = Some (Predicate ex_required) \<and>
   ex_required '''' None = Immediate False \<and> ex_required ''2'' None = Immediate True \<and>
   formatErrorMessage ex_state ''a'' \<lparr>name = ''required'', params = None\<rparr> =
     Inr ''The a field is required.'' \<and>
   fst (validateAll ex_state [(''a'', ''''), (''b'', ''2'')]) = Inr (Now True) \<and>
   errorBag (snd (validateAll ex_state [(''a'', ''''), (''b'', ''2'')])) ''a'' =
     [\<lparr>field = ''a'', message = ''The a field is required.''\<rparr>]"
proof -
  let ?r = "\<lparr>name = ''required'', params = None\<rparr>"
  have h: "''a'' \<noteq> ''b'' \<and>
   get_chain (validations ex_state) ''a'' = Some [?r] \<and> get_chain (validations ex_state) ''b'' = Some [?r] \<and>
   Rules ex_state (name ?r) = Some (Predicate ex_required) \<and>
   ex_required '''' (params ?r) = Immediate False \<and> ex_required ''2'' (params ?r) = Immediate True \<and>
   formatErrorMessage ex_state ''a'' ?r = Inr ''The a field is required.''"
    by (simp add: ex_defs run_defs)
  from validateAll_returns_last_field
    [where s = ex_state and a = "''a''" and b' = "''b''" and r = "?r" and p = ex_required
      and va = "[]" and vb = "''2''" and m = "''The a field is required.''"] h
  show ?thesis by simp
qed

section \<open>Asynchronous rules\<close>

lemma foldl_valid:
  "foldl (\<lambda>prev curr. prev \<and> valid curr) acc vals = (acc \<and> list_all valid vals)"
  by (induction vals arbitrary: acc) auto

text \<open>C3: when the predicate of a rule returns a promise that resolves to a sequence of
  entries with a \<^verbatim>\<open>valid\<close> flag, \<^verbatim>\<open>test\<close> returns a promise and writes nothing;
  when its callback runs, the promise resolves to the conjunction of the flags (\<^verbatim>\<open>true\<close>
  for the empty sequence), and one formatted entry is appended to the field's errors when
  the conjunction is false, none when it is true. The formatter has to resolve when the
  conjunction is false.\<close>

theorem test_async_conjunction:
  assumes "Rules s (name r) = Some (Predicate p)" and "p v (params r) = Promise vals"
    and "list_all valid vals \<or> formatErrorMessage s1 n r = Inr m"
  shows "test s n v r = (Inr (Later \<lparr>p_field = n, p_rule = r, p_values = vals\<rparr>), s) \<and>
         test_then s1 \<lparr>p_field = n, p_rule = r, p_values = vals\<rparr> =
           (Inr (list_all valid vals),
            if list_all valid vals then s1
            else s1\<lparr>errorBag := (errorBag s1)(n := errorBag s1 n @ [\<lparr>field = n, message = m\<rparr>])\<rparr>) \<and>
         test_then s1 \<lparr>p_field = n, p_rule = r, p_values = []\<rparr> = (Inr True, s1)"
proof (intro conjI)
  show "test s n v r = (Inr (Later \<lparr>p_field = n, p_rule = r, p_values = vals\<rparr>), s)"
    using assms(1,2) by (simp add: test_def)
  show "test_then s1 \<lparr>p_field = n, p_rule = r, p_values = vals\<rparr> =
           (Inr (list_all valid vals),
            if list_all valid vals then s1
            else s1\<lparr>errorBag := (errorBag s1)(n := errorBag s1 n @ [\<lparr>field = n, message = m\<rparr>])\<rparr>)"
    using assms(3) by (cases "list_all valid vals") (simp_all add: test_then_def foldl_valid errorBag_add_def)
  show "test_then s1 \<lparr>p_field = n, p_rule = r, p_values = []\<rparr> = (Inr True, s1)"
    by (simp add: test_then_def)
qed

text \<open>C3 on a promise resolving to \<^verbatim>\<open>[{valid: true}, {valid: false}]\<close>: the result is
  \<^verbatim>\<open>false\<close> and one error is recorded.\<close>

theorem test_async_conjunction_witness:
  "Rules ex_state ''remote'' = Some (Predicate ex_remote) \<and>
   ex_remote ''x'' None = Promise [\<lparr>valid = True\<rparr>, \<lparr>valid = False\<rparr>] \<and>
   formatErrorMessage ex_state ''email'' \<lparr>name = ''remote'', params = None\<rparr> =
     Inr ''The email value is not valid.'' \<and>
   test ex_state ''email'' ''x'' \<lparr>name = ''remote'', params = None\<rparr> =
     (Inr (Later ex_pending), ex_state) \<and>
   fst (test_then ex_state ex_pending) = Inr False \<and>
   errorBag (snd (test_then ex_state ex_pending)) ''email'' =
     [\<lparr>field = ''email'', message = ''The email value is not valid.''\<rparr>]"
proof -
  let ?r = "\<lparr>name = ''remote'', params = None\<rparr>"
  have 1: "Rules ex_state (name ?r) = Some (Predicate ex_remote)"
    by (simp add: ex_defs)
  have 2: "ex_remote ''x'' (params ?r) = Promise [\<lparr>valid = True\<rparr>, \<lparr>valid = False\<rparr>]"
    by (simp add: ex_defs)
  have 3: "formatErrorMessage ex_state ''email'' ?r = Inr ''The email value is not valid.''"
    by (simp add: ex_defs run_defs)
  then have 4: "list_all valid [\<lparr>valid = True\<rparr>, \<lparr>valid = False\<rparr>] \<or>
      formatErrorMessage ex_state ''email'' ?r = Inr ''The email value is not valid.''"
    by simp
  have 5: "errorBag ex_state ''email'' = []"
    by (simp add: ex_defs)
  note w = test_async_conjunction
    [where s = ex_state and r = "?r" and p = ex_remote and v = "''x''"
      and vals = "[\<lparr>valid = True\<rparr>, \<lparr>valid = False\<rparr>]" and ?s1.0 = ex_state
      and n = "''email''" and m = "''The email value is not valid.''", OF 1 2 4]
  have a: "test ex_state ''email'' ''x'' ?r = (Inr (Later ex_pending), ex_state)"
    unfolding ex_pending_def using w by (rule conjunct1)
  have "test_then ex_state ex_pending =
      (Inr False,
       ex_state\<lparr>errorBag := (errorBag ex_state)(''email'' := errorBag ex_state ''email'' @
         [\<lparr>field = ''email'', message = ''The email value is not valid.''\<rparr>])\<rparr>)"
    unfolding ex_pending_def using w [THEN conjunct2, THEN conjunct1] by simp
  then have b: "fst (test_then ex_state ex_pending) = Inr False"
    and c: "errorBag (snd (test_then ex_state ex_pending)) ''email'' =
      [\<lparr>field = ''email'', message = ''The email value is not valid.''\<rparr>]"
    using 5 by simp_all
  have 1: "Rules ex_state ''remote'' = Some (Predicate ex_remote)"
    and 2: "ex_remote ''x'' None = Promise [\<lparr>valid = True\<rparr>, \<lparr>valid = False\<rparr>]"
    using 1 2 by simp_all
  from 1 2 3 a b c show ?thesis by (intro conjI)
qed

section \<open>Errors of a field across calls\<close>

text \<open>C6, as stated, fails for a chain with an asynchronous rule: the callback of
  \<^verbatim>\<open>then\<close> appends its error when the promise resolves, after \<^verbatim>\<open>validate\<close> has returned.
  Two calls of \<^verbatim>\<open>validate\<close> on the field \<^verbatim>\<open>email\<close> each return a promise; once both
  callbacks have run, the field has two entries for one failing rule, where one pass alone
  leaves one.\<close>

theorem validate_twice_async_counterexample:
  "fst (validate ex_state ''email'' ''x'') = Inr (Later ex_pending) \<and>
   fst (validate (snd (validate ex_state ''email'' ''x'')) ''email'' ''x'') = Inr (Later ex_pending) \<and>
   errorBag (snd (test_then (snd (validate ex_state ''email'' ''x'')) ex_pending)) ''email'' =
     [\<lparr>field = ''email'', message = ''The email value is not valid.''\<rparr>] \<and>
   errorBag (snd (test_then (snd (test_then
       (snd (validate (snd (validate ex_state ''email'' ''x'')) ''email'' ''x''))
       ex_pending)) ex_pending)) ''email'' =
     [\<lparr>field = ''email'', message = ''The email value is not valid.''\<rparr>,
      \<lparr>field = ''email'', message = ''The email value is not valid.''\<rparr>]"
proof -
  let ?e = "\<lparr>field = ''email'', message = ''The email value is not valid.''\<rparr>"
  have 1: "validate ex_state ''email'' ''x'' = (Inr (Later ex_pending), ex_state)"
    by (simp add: ex_defs run_defs ex_pending_def fun_upd_idem)
  have 2: "test_then ex_state ex_pending =
      (Inr False, ex_state\<lparr>errorBag := new_ErrorBag(''email'' := [?e])\<rparr>)"
    by (simp add: ex_defs run_defs ex_pending_def test_then_def)
  have 3: "errorBag (snd (test_then (ex_state\<lparr>errorBag := new_ErrorBag(''email'' := [?e])\<rparr>)
      ex_pending)) ''email'' = [?e, ?e]"
    by (simp add: ex_defs run_defs ex_pending_def test_then_def)
  show ?thesis
    unfolding 1 snd_conv fst_conv 2 3 by simp
qed

text \<open>C6, amended: \<^verbatim>\<open>validate\<close> removes the entries of the field before it runs the
  chain, so when the call returns (or throws) the field's entries are those recorded during
  this call, whatever the bag held before; calling \<^verbatim>\<open>validate\<close> twice leaves, on return,
  the entries that one call leaves. This is about the entries written during the call: the
  error of an asynchronous rule is written when its promise resolves.\<close>

theorem validate_entries_latest_pass:
  "errorBag (snd (validate (s\<lparr>errorBag := b\<rparr>) n v)) n = errorBag (snd (validate s n v)) n \<and>
   errorBag (snd (validate (snd (validate s n v)) n v)) n = errorBag (snd (validate s n v)) n"
  by (intro conjI) (rule validate_entries_errorBag, rule validate_twice_entries)

section \<open>Fields without a chain\<close>

lemma normalize_rules_dom:
  "normalize_rules nz p rules = Inr nz' \<Longrightarrow> dom nz' \<subseteq> insert p (dom nz)"
proof (induction rules arbitrary: nz)
  case Nil
  then show ?case by auto
next
  case (Cons rule rules)
  obtain r where r: "normalizeRule rule = Inr r"
    using normalizeRule_total by blast
  define nz1 where "nz1 = (if nz p = None \<and> p \<notin> set Object_prototype then nz(p \<mapsto> []) else nz)"
  have d1: "dom nz1 \<subseteq> insert p (dom nz)"
    by (auto simp: nz1_def split: if_splits)
  from Cons.prems r obtain chain where c: "nz1 p = Some chain"
    and n: "normalize_rules (nz1(p \<mapsto> chain @ [r])) p rules = Inr nz'"
    by (cases "nz1 p") (simp_all add: Let_def nz1_def [symmetric])
  have "dom nz' \<subseteq> insert p (dom (nz1(p \<mapsto> chain @ [r])))"
    using n by (rule Cons.IH)
  then have "dom nz' \<subseteq> insert p (dom nz1)" by simp
  with d1 show ?case by blast
qed

lemma normalize_props_dom:
  "normalize_props nz kvs = Inr nz' \<Longrightarrow> dom nz' \<subseteq> dom nz \<union> fst ` set kvs"
proof (induction kvs arbitrary: nz)
  case Nil
  then show ?case by simp
next
  case (Cons kv kvs)
  obtain p expr where kv: "kv = (p, expr)" by (cases kv)
  obtain nz1 where 1: "normalize_rules nz p (split_str CHR ''|'' expr) = Inr nz1"
    and 2: "normalize_props nz1 kvs = Inr nz'"
    using Cons.prems unfolding kv by (simp split: sum.splits)
  have "dom nz1 \<subseteq> insert p (dom nz)" using 1 by (rule normalize_rules_dom)
  moreover have "dom nz' \<subseteq> dom nz1 \<union> fst ` set kvs" using 2 by (rule Cons.IH)
  ultimately have "dom nz' \<subseteq> insert p (dom nz) \<union> fst ` set kvs" by blast
  then show ?case unfolding kv by simp
qed

lemma create_validations:
  assumes "create rs ms (Some kvs) = Inr s0" and "n \<notin> fst ` set kvs"
  shows "get_chain (validations s0) n = None"
proof -
  obtain nz where 1: "normalize_props Map.empty kvs = Inr nz"
    and 2: "validations s0 = \<lparr>own = nz, proto = None\<rparr>"
    using assms(1) by (auto simp: create_def normalize_def split: sum.splits)
  have "dom nz \<subseteq> fst ` set kvs" using normalize_props_dom [OF 1] by simp
  with assms(2) have "nz n = None" by auto
  with 2 show ?thesis by (simp add: get_chain_def)
qed


text \<open>C10, as stated, fails for the field name \<^verbatim>\<open>__proto__\<close>: \<^verbatim>\<open>attach\<close> stores its chain
  as the prototype of \<^verbatim>\<open>this.validations\<close>, \<^verbatim>\<open>detach\<close> deletes no key, and \<^verbatim>\<open>validate\<close>
  on the detached field still finds the chain and returns a result.\<close>

theorem validate_detached_proto_counterexample:
  "fst (attach ex_state ''__proto__'' ''required'') = Inr () \<and>
   own (validations (detach (snd (attach ex_state ''__proto__'' ''required'')) ''__proto__''))
     ''__proto__'' = None \<and>
   fst (validate (detach (snd (attach ex_state ''__proto__'' ''required'')) ''__proto__'')
     ''__proto__'' []) = Inr (Now False)"
proof -
  let ?vs = "\<lparr>own = own (validations ex_state),
      proto = Some [\<lparr>name = ''required'', params = None\<rparr>]\<rparr>"
  have a: "attach ex_state ''__proto__'' ''required'' =
      (Inr (), ex_state\<lparr>validations := ?vs\<rparr>)"
    by (simp add: attach_def set_chain_def push_chain_def normalizeRule_def ex_state_def
        errorBag_remove_def new_ErrorBag_def fun_upd_idem)
  have d: "detach (ex_state\<lparr>validations := ?vs\<rparr>) ''__proto__'' = ex_state\<lparr>validations := ?vs\<rparr>"
    by (simp add: detach_def delete_chain_def ex_state_def fun_upd_idem)
  have v: "fst (validate (ex_state\<lparr>validations := ?vs\<rparr>) ''__proto__'' []) = Inr (Now False)"
    by (simp add: ex_defs run_defs)
  have k: "own (validations (ex_state\<lparr>validations := ?vs\<rparr>)) ''__proto__'' = None"
    by (simp add: ex_state_def)
  show ?thesis unfolding a snd_conv fst_conv d using v k by simp
qed

text \<open>C10, amended: on a field for which the lookup \<^verbatim>\<open>this.validations[name]\<close> yields no
  chain, \<^verbatim>\<open>validate\<close> throws a \<^verbatim>\<open>TypeError\<close> (after removing the field's errors) instead
  of returning a result, and a call that returns a result was made on a field whose lookup
  yields a chain. The lookup yields no chain for every name that was not among the
  constructor's keys, and after \<^verbatim>\<open>detach\<close> for every name other than \<^verbatim>\<open>__proto__\<close> (and for
  \<^verbatim>\<open>__proto__\<close> while the prototype is still \<^verbatim>\<open>Object.prototype\<close>).\<close>

theorem validate_unattached_throws:
  "(get_chain (validations s) n = None \<longrightarrow>
      validate s n v = (Inl TypeError, s\<lparr>errorBag := errorBag_remove (errorBag s) n\<rparr>)) \<and>
   (n \<noteq> ''__proto__'' \<or> proto (validations s) = None \<longrightarrow>
      fst (validate (detach s n) n v) = Inl TypeError) \<and>
   (create rs ms (Some kvs) = Inr s0 \<and> n \<notin> fst ` set kvs \<longrightarrow>
      fst (validate s0 n v) = Inl TypeError) \<and>
   ((\<exists>t. fst (validate s n v) = Inr t) \<longrightarrow> get_chain (validations s) n \<noteq> None)"
proof (intro conjI impI)
  show "validate s n v = (Inl TypeError, s\<lparr>errorBag := errorBag_remove (errorBag s) n\<rparr>)"
    if "get_chain (validations s) n = None"
    using that by (simp add: validate_unfold)
  show "fst (validate (detach s n) n v) = Inl TypeError"
    if "n \<noteq> ''__proto__'' \<or> proto (validations s) = None"
  proof -
    from that have "get_chain (validations (detach s n)) n = None"
      by (auto simp: detach_def delete_chain_def get_chain_def)
    then show ?thesis by (simp add: validate_unfold)
  qed
  show "fst (validate s0 n v) = Inl TypeError"
    if "create rs ms (Some kvs) = Inr s0 \<and> n \<notin> fst ` set kvs"
    using that create_validations [of rs ms kvs s0 n] by (simp add: validate_unfold)
  show "get_chain (validations s) n \<noteq> None" if "\<exists>t. fst (validate s n v) = Inr t"
    using that by (cases "get_chain (validations s) n") (simp_all add: validate_unfold)
qed

text \<open>C10 on the field \<^verbatim>\<open>zip\<close>, which has no chain, on the detached field \<^verbatim>\<open>a\<close>, and on
  the attached field \<^verbatim>\<open>a\<close>.\<close>

theorem validate_unattached_throws_witness:
  "get_chain (validations ex_state) ''zip'' = None \<and>
   validate ex_state ''zip'' ''75001'' =
     (Inl TypeError, ex_state\<lparr>errorBag := errorBag_remove (errorBag ex_state) ''zip''\<rparr>) \<and>
   ''a'' \<noteq> ''__proto__'' \<and>
   fst (validate (detach ex_state ''a'') ''a'' ''x'') = Inl TypeError \<and>
   create ex_Rules ex_Messages (Some [(''a'', ''required'')]) =
     Inr \<lparr>Rules = ex_Rules, Messages = ex_Messages, currentLocale = ''en'',
          validations = \<lparr>own = [''a'' \<mapsto> [\<lparr>name = ''required'', params = None\<rparr>]],
                         proto = None\<rparr>,
          errorBag = new_ErrorBag\<rparr> \<and>
   ''zip'' \<notin> fst ` set [(''a'', ''required'')] \<and>
   fst (validate \<lparr>Rules = ex_Rules, Messages = ex_Messages, currentLocale = ''en'',
          validations = \<lparr>own = [''a'' \<mapsto> [\<lparr>name = ''required'', params = None\<rparr>]],
                         proto = None\<rparr>,
          errorBag = new_ErrorBag\<rparr> ''zip'' ''75001'') = Inl TypeError \<and>
   fst (validate ex_state ''a'' ''x'') = Inr (Now True) \<and>
   get_chain (validations ex_state) ''a'' \<noteq> None"
proof -
  let ?s0 = "\<lparr>Rules = ex_Rules, Messages = ex_Messages, currentLocale = ''en'',
          validations = \<lparr>own = [''a'' \<mapsto> [\<lparr>name = ''required'', params = None\<rparr>]],
                         proto = None\<rparr>,
          errorBag = new_ErrorBag\<rparr>"
  have 1: "get_chain (validations ex_state) ''zip'' = None"
    by (simp add: ex_defs get_chain_def)
  have 2: "create ex_Rules ex_Messages (Some [(''a'', ''required'')]) = Inr ?s0"
    by (simp add: create_def normalize_def normalizeRule_def Object_prototype_def)
  have 3: "''zip'' \<notin> fst ` set [(''a'', ''required'')]"
    by simp
  have 4: "fst (validate ex_state ''a'' ''x'') = Inr (Now True)"
    by (simp add: ex_defs run_defs)
  have 8: "''a'' \<noteq> ''__proto__''"
    by simp
  note a = validate_unattached_throws
    [where s = ex_state and n = "''zip''" and v = "''75001''" and rs = ex_Rules
      and ms = ex_Messages and kvs = "[(''a'', ''required'')]" and ?s0.0 = ?s0]
  note b = validate_unattached_throws [where s = ex_state and n = "''a''" and v = "''x''"]
  from a 1 have 5: "validate ex_state ''zip'' ''75001'' =
     (Inl TypeError, ex_state\<lparr>errorBag := errorBag_remove (errorBag ex_state) ''zip''\<rparr>)"
    by blast
  from a 2 3 have 6: "fst (validate ?s0 ''zip'' ''75001'') = Inl TypeError"
    by blast
  from b 4 have 7: "get_chain (validations ex_state) ''a'' \<noteq> None"
    by blast
  from b 8 have 9: "fst (validate (detach ex_state ''a'') ''a'' ''x'') = Inl TypeError"
    by blast
  from 1 2 3 4 5 6 7 8 9 show ?thesis by blast
qed

section \<open>Messages of failing rules\<close>

lemma formatErrorMessage_locale:
  "Messages s (currentLocale s) = Some cat \<Longrightarrow> cat (name r) = Some (Callable f) \<Longrightarrow>
   formatErrorMessage s n r = Inr (f n (params r))"
  by (simp add: formatErrorMessage_def is_function_def invoke_def)

lemma formatErrorMessage_fallback:
  "Messages s (currentLocale s) = None \<or>
     (\<exists>cat. Messages s (currentLocale s) = Some cat \<and> \<not> is_function (cat (name r))) \<Longrightarrow>
   Messages s ''en'' = Some en \<Longrightarrow> en (name r) = Some (Callable g) \<Longrightarrow>
   formatErrorMessage s n r = Inr (g n (params r))"
  by (auto simp add: formatErrorMessage_def english_def invoke_def)

lemma validate_two_rules:
  assumes "get_chain (validations s) n = Some [r1, r2]"
    and "Rules s (name r1) = Some (Predicate p1)" and "p1 v (params r1) = Immediate ok1"
    and "Rules s (name r2) = Some (Predicate p2)" and "p2 v (params r2) = Immediate ok2"
    and "ok1 \<noteq> ok2"
    and "formatErrorMessage s n (if ok1 then r2 else r1) = Inr m"
  shows "validate s n v =
     (Inr (Now ok2), s\<lparr>errorBag := (errorBag s)(n := [\<lparr>field = n, message = m\<rparr>])\<rparr>)"
proof (cases ok1)
  case True
  with assms show ?thesis
    by (simp add: validate_def test_def Let_def errorBag_remove_def errorBag_add_def)
next
  case False
  with assms show ?thesis
    by (simp add: validate_def test_def Let_def errorBag_remove_def errorBag_add_def)
qed

text \<open>C9: for a chain of two synchronous rules of which exactly one fails, \<^verbatim>\<open>validate\<close>
  leaves exactly one entry for the field, whose message is what \<^verbatim>\<open>formatErrorMessage\<close>
  gives for the failing rule: the formatter of the active locale applied to the field and
  the rule's parameters when the locale's table has a function for the rule, and the English
  formatter for the rule when the locale has no table or its entry for the rule is not a
  function.\<close>

theorem validate_one_failing_of_two:
  assumes "get_chain (validations s) n = Some [r1, r2]"
    and "Rules s (name r1) = Some (Predicate p1)" and "p1 v (params r1) = Immediate ok1"
    and "Rules s (name r2) = Some (Predicate p2)" and "p2 v (params r2) = Immediate ok2"
    and "ok1 \<noteq> ok2" and "r = (if ok1 then r2 else r1)"
    and "formatErrorMessage s n r = Inr m"
  shows "errorBag (snd (validate s n v)) n = [\<lparr>field = n, message = m\<rparr>] \<and>
         fst (validate s n v) = Inr (Now ok2) \<and>
         (Messages s (currentLocale s) = Some cat \<and> cat (name r) = Some (Callable f) \<longrightarrow>
            m = f n (params r)) \<and>
         ((Messages s (currentLocale s) = None \<or>
             (\<exists>c. Messages s (currentLocale s) = Some c \<and> \<not> is_function (c (name r)))) \<and>
          Messages s ''en'' = Some en \<and> en (name r) = Some (Callable g) \<longrightarrow>
            m = g n (params r))"
proof (intro conjI impI)
  have v: "validate s n v =
     (Inr (Now ok2), s\<lparr>errorBag := (errorBag s)(n := [\<lparr>field = n, message = m\<rparr>])\<rparr>)"
    using assms(1-6) assms(8) unfolding assms(7) by (rule validate_two_rules)
  show "errorBag (snd (validate s n v)) n = [\<lparr>field = n, message = m\<rparr>]"
    unfolding v by simp
  show "fst (validate s n v) = Inr (Now ok2)"
    unfolding v by simp
  show "m = f n (params r)"
    if "Messages s (currentLocale s) = Some cat \<and> cat (name r) = Some (Callable f)"
    using that assms(8) formatErrorMessage_locale [of s cat r f n] by simp
  show "m = g n (params r)"
    if "(Messages s (currentLocale s) = None \<or>
             (\<exists>c. Messages s (currentLocale s) = Some c \<and> \<not> is_function (c (name r)))) \<and>
          Messages s ''en'' = Some en \<and> en (name r) = Some (Callable g)"
    using that assms(8) formatErrorMessage_fallback [of s r en g n] by simp
qed

text \<open>C9 on the field \<^verbatim>\<open>color\<close> with the value \<^verbatim>\<open>"green"\<close>: under the locale \<^verbatim>\<open>fr\<close>,
  whose entry for \<^verbatim>\<open>in\<close> is not a function, the one entry carries the English message;
  under \<^verbatim>\<open>en\<close> it carries the message of the locale's own formatter.\<close>

theorem validate_one_failing_of_two_witness:
  "get_chain (validations (setLocale ex_state ''fr'')) ''color'' =
     Some [\<lparr>name = ''in'', params = Some [''red'', ''blue'']\<rparr>, \<lparr>name = ''required'', params = None\<rparr>] \<and>
   Rules (setLocale ex_state ''fr'') ''in'' = Some (Predicate ex_in) \<and>
   ex_in ''green'' (Some [''red'', ''blue'']) = Immediate False \<and>
   Rules (setLocale ex_state ''fr'') ''required'' = Some (Predicate ex_required) \<and>
   ex_required ''green'' None = Immediate True \<and>
   Messages (setLocale ex_state ''fr'') (currentLocale (setLocale ex_state ''fr'')) = Some ex_fr \<and>
   \<not> is_function (ex_fr ''in'') \<and>
   Messages (setLocale ex_state ''fr'') ''en'' = Some ex_en \<and>
   ex_en ''in'' = Some (Callable ex_in_message) \<and>
   formatErrorMessage (setLocale ex_state ''fr'') ''color''
       \<lparr>name = ''in'', params = Some [''red'', ''blue'']\<rparr> =
     Inr (ex_in_message ''color'' (Some [''red'', ''blue''])) \<and>
   fst (validate (setLocale ex_state ''fr'') ''color'' ''green'') = Inr (Now True) \<and>
   errorBag (snd (validate (setLocale ex_state ''fr'') ''color'' ''green'')) ''color'' =
     [\<lparr>field = ''color'', message = ''The color field must be a valid value.''\<rparr>] \<and>
   Messages ex_state (currentLocale ex_state) = Some ex_en \<and>
   errorBag (snd (validate ex_state ''color'' ''green'')) ''color'' =
     [\<lparr>field = ''color'', message = ex_in_message ''color'' (Some [''red'', ''blue''])\<rparr>]"
proof -
  let ?fr = "setLocale ex_state ''fr''"
  let ?r1 = "\<lparr>name = ''in'', params = Some [''red'', ''blue'']\<rparr>"
  let ?r2 = "\<lparr>name = ''required'', params = None\<rparr>"
  let ?m = "ex_in_message ''color'' (Some [''red'', ''blue''])"
  have 1: "get_chain (validations ?fr) ''color'' = Some [?r1, ?r2]"
    and 2: "Rules ?fr (name ?r1) = Some (Predicate ex_in)"
    and 3: "ex_in ''green'' (params ?r1) = Immediate False"
    and 4: "Rules ?fr (name ?r2) = Some (Predicate ex_required)"
    and 5: "ex_required ''green'' (params ?r2) = Immediate True"
    and 6: "False \<noteq> True"
    and 7: "?r1 = (if False then ?r2 else ?r1)"
    by (simp_all add: ex_defs setLocale_def)
  have 8: "formatErrorMessage ?fr ''color'' ?r1 = Inr ?m"
    by (simp add: ex_defs setLocale_def run_defs)
  have 9: "Messages ?fr (currentLocale ?fr) = Some ex_fr"
    and 10: "\<not> is_function (ex_fr (name ?r1))"
    and 11: "Messages ?fr ''en'' = Some ex_en"
    and 12: "ex_en (name ?r1) = Some (Callable ex_in_message)"
    by (simp_all add: ex_state_def ex_Messages_def ex_en_def ex_fr_def setLocale_def
        is_function_def)
  note w = validate_one_failing_of_two
    [where s = ?fr and n = "''color''" and ?r1.0 = ?r1 and ?r2.0 = ?r2 and ?p1.0 = ex_in
      and ?p2.0 = ex_required and v = "''green''" and ?ok1.0 = False and ?ok2.0 = True
      and r = ?r1 and m = ?m and en = ex_en and g = ex_in_message, OF 1 2 3 4 5 6 7 8]
  have a: "fst (validate ?fr ''color'' ''green'') = Inr (Now True)"
    and b: "errorBag (snd (validate ?fr ''color'' ''green'')) ''color'' =
      [\<lparr>field = ''color'', message = ''The color field must be a valid value.''\<rparr>]"
    using w by (simp_all add: ex_in_message_def)
  have q1: "get_chain (validations ex_state) ''color'' = Some [?r1, ?r2]"
    and q2: "Rules ex_state (name ?r1) = Some (Predicate ex_in)"
    and q4: "Rules ex_state (name ?r2) = Some (Predicate ex_required)"
    by (simp_all add: ex_defs)
  have q8: "formatErrorMessage ex_state ''color'' ?r1 = Inr ?m"
    by (simp add: ex_defs run_defs)
  have q9: "Messages ex_state (currentLocale ex_state) = Some ex_en"
    by (simp add: ex_state_def ex_Messages_def)
  note w' = validate_one_failing_of_two
    [where s = ex_state and n = "''color''" and ?r1.0 = ?r1 and ?r2.0 = ?r2 and ?p1.0 = ex_in
      and ?p2.0 = ex_required and v = "''green''" and ?ok1.0 = False and ?ok2.0 = True
      and r = ?r1 and m = ?m and cat = ex_en and f = ex_in_message, OF q1 q2 3 q4 5 6 7 q8]
  have c: "errorBag (snd (validate ex_state ''color'' ''green'')) ''color'' =
      [\<lparr>field = ''color'', message = ?m\<rparr>]"
    using w' by simp
  from 1 2 3 4 5 8 9 10 11 12 a b c q9 show ?thesis by simp
qed

section \<open>Extension\<close>

text \<open>When \<^verbatim>\<open>guardExtend\<close> throws its own exception.\<close>

lemma guardExtend_throws_iff:
  "(\<exists>msg. guardExtend s n vd = Inl (ValidatorException msg)) \<longleftrightarrow>
     (truthy (Rules s n) \<or>
      (case vd of
         Function f \<Rightarrow> False
       | Nullish \<Rightarrow> False
       | Primitive \<Rightarrow> True
       | Object ob \<Rightarrow>
           \<not> is_predicate (v_validate ob) \<or>
           (v_getMessage ob = None \<and> \<not> typeof_object (v_messages ob))))"
  by (cases vd) (auto simp: guardExtend_def)

lemma guardExtend_returns_iff:
  "guardExtend s n vd = Inr () \<longleftrightarrow>
     (\<not> truthy (Rules s n) \<and>
      (case vd of
         Function f \<Rightarrow> True
       | Nullish \<Rightarrow> False
       | Primitive \<Rightarrow> False
       | Object ob \<Rightarrow>
           is_predicate (v_validate ob) \<and>
           (v_getMessage ob \<noteq> None \<or> typeof_object (v_messages ob))))"
  by (cases vd) (auto simp: guardExtend_def)

lemma set_english_error: "fst (set_english s n e) = Inl x \<Longrightarrow> x = TypeError"
  by (auto simp: set_english_def split: option.splits)

lemma set_english_Rules: "Rules (snd (set_english s n e)) = Rules s"
  by (simp add: set_english_def split: option.splits)

lemma merge_messages_Rules: "Rules (merge_messages s n ms) = Rules s"
  by (induction ms arbitrary: s) auto

text \<open>The part of \<^verbatim>\<open>merge\<close> after \<^verbatim>\<open>Rules[name]\<close> is written leaves \<^verbatim>\<open>Rules\<close> alone and
  throws no exception but a \<^verbatim>\<open>TypeError\<close>.\<close>

lemma merge_Object:
  "\<exists>x s2. merge s n (Object ob) = (x, s2) \<and> (\<forall>u. x = Inl u \<longrightarrow> u = TypeError) \<and>
     Rules s2 = (Rules s)(n \<mapsto> v_validate ob)"
proof -
  let ?s1 = "s\<lparr>Rules := (Rules s)(n \<mapsto> v_validate ob)\<rparr>"
  define y where "y = (case v_getMessage ob of
      None \<Rightarrow> (Inr (), ?s1) | Some g \<Rightarrow> set_english ?s1 n (Callable g))"
  have y1: "Rules (snd y) = Rules ?s1"
    by (cases "v_getMessage ob") (simp_all add: y_def set_english_Rules)
  have y2: "fst y = Inl u \<Longrightarrow> u = TypeError" for u
    using set_english_error by (cases "v_getMessage ob") (auto simp: y_def)
  have m: "merge s n (Object ob) =
      (case y of
         (Inl e, s2) \<Rightarrow> (Inl e, s2)
       | (Inr _, s2) \<Rightarrow>
           (case v_messages ob of
              M_null \<Rightarrow> (Inr (), s2)
            | M_object ms \<Rightarrow> (Inr (), merge_messages s2 n ms)
            | M_other b ks \<Rightarrow>
                if b then
                  (case ks of
                     None \<Rightarrow> (Inl TypeError, s2)
                   | Some ms \<Rightarrow> (Inr (), merge_messages s2 n ms))
                else (Inr (), s2)))"
    by (simp add: merge_def Let_def y_def)
  obtain x s2 where y: "y = (x, s2)" by (cases y)
  from y1 y have r: "Rules s2 = (Rules s)(n \<mapsto> v_validate ob)" by simp
  show ?thesis
  proof (cases x)
    case (Inl e)
    with y2 y have "e = TypeError" by simp
    with m y Inl r show ?thesis by simp
  next
    case (Inr u)
    with m y r show ?thesis
      by (cases "v_messages ob")
         (auto simp: merge_messages_Rules split: option.splits)
  qed
qed

lemma merge_error:
  assumes "fst (merge s n vd) = Inl x"
  shows "x = TypeError"
proof (cases vd)
  case (Function f)
  with assms show ?thesis
    using set_english_error by (simp add: merge_def)
next
  case (Object ob)
  with assms merge_Object [of s n ob] show ?thesis by auto
next
  case Nullish
  with assms show ?thesis by (simp add: merge_def)
next
  case Primitive
  with assms show ?thesis by (simp add: merge_def)
qed

lemma merge_Rules:
  "Rules (snd (merge s n vd)) n =
     (case vd of
        Function f \<Rightarrow> Some (Predicate f)
      | Object ob \<Rightarrow> Some (v_validate ob)
      | Nullish \<Rightarrow> Rules s n
      | Primitive \<Rightarrow> Some (NotFunction False))"
proof (cases vd)
  case (Function f)
  then show ?thesis by (simp add: merge_def set_english_Rules)
next
  case (Object ob)
  with merge_Object [of s n ob] show ?thesis by auto
next
  case Nullish
  then show ?thesis by (simp add: merge_def)
next
  case Primitive
  then show ?thesis by (simp add: merge_def)
qed

text \<open>What \<^verbatim>\<open>extend\<close> does on every input: it throws a \<^verbatim>\<open>ValidatorException\<close>, leaving
  the state as it was, exactly when the entry of \<^verbatim>\<open>Rules\<close> under the name is truthy, or the
  validator is a primitive, or an object whose \<^verbatim>\<open>validate\<close> is not a function, or an
  object whose \<^verbatim>\<open>getMessage\<close> is not a function and whose \<^verbatim>\<open>messages\<close> has a \<^verbatim>\<open>typeof\<close>
  other than \<^verbatim>\<open>'object'\<close>. A \<^verbatim>\<open>messages\<close> member holding \<^verbatim>\<open>null\<close> passes this test.\<close>

lemma extend_throws_iff:
  "(\<exists>msg. fst (extend s n vd) = Inl (ValidatorException msg)) \<longleftrightarrow>
     (truthy (Rules s n) \<or>
      (case vd of
         Function f \<Rightarrow> False
       | Nullish \<Rightarrow> False
       | Primitive \<Rightarrow> True
       | Object ob \<Rightarrow>
           \<not> is_predicate (v_validate ob) \<or>
           (v_getMessage ob = None \<and> \<not> typeof_object (v_messages ob))))"
proof (cases "guardExtend s n vd")
  case (Inl e)
  then have "fst (extend s n vd) = Inl e" by (simp add: extend_def)
  with Inl show ?thesis
    using guardExtend_throws_iff [of s n vd] by auto
next
  case (Inr u)
  then have e: "extend s n vd = merge s n vd" by (simp add: extend_def)
  have "\<not> (\<exists>msg. fst (merge s n vd) = Inl (ValidatorException msg))"
    using merge_error [of s n vd] by auto
  moreover have "\<not> (\<exists>msg. guardExtend s n vd = Inl (ValidatorException msg))"
    using Inr by simp
  ultimately show ?thesis
    using guardExtend_throws_iff [of s n vd] e by simp
qed

lemma extend_throws_state:
  assumes "fst (extend s n vd) = Inl (ValidatorException msg)"
  shows "snd (extend s n vd) = s"
proof (cases "guardExtend s n vd")
  case (Inl e)
  then show ?thesis by (simp add: extend_def)
next
  case (Inr u)
  then have "extend s n vd = merge s n vd" by (simp add: extend_def)
  with assms have "ValidatorException msg = TypeError"
    using merge_error [of s n vd "ValidatorException msg"] by simp
  then show ?thesis by simp
qed

text \<open>After an \<^verbatim>\<open>extend\<close> that returned, every further \<^verbatim>\<open>extend\<close> under the same name
  throws the exception of the first guard and changes nothing.\<close>

lemma extend_twice:
  assumes "fst (extend s n vd) = Inr ()"
  shows "\<exists>msg. extend (snd (extend s n vd)) n vd' =
     (Inl (ValidatorException msg), snd (extend s n vd))"
proof -
  have g: "guardExtend s n vd = Inr ()"
    using assms merge_error [of s n vd]
    by (cases "guardExtend s n vd") (auto simp: extend_def)
  then have e: "extend s n vd = merge s n vd" by (simp add: extend_def)
  have "truthy (Rules (snd (merge s n vd)) n)"
    using g guardExtend_returns_iff [of s n vd]
    by (cases vd) (auto simp: merge_Rules truthy_def is_predicate_def split: ruleEntry.splits)
  then show ?thesis
    unfolding e by (simp add: extend_def guardExtend_def)
qed

text \<open>C8 fails on the code. The third guard tests
  \<^verbatim>\<open>typeof validator.messages !== 'object'\<close>, and \<^verbatim>\<open>typeof null\<close> is \<^verbatim>\<open>'object'\<close>: for an
  object with a \<^verbatim>\<open>validate\<close> function, no \<^verbatim>\<open>getMessage\<close> and \<^verbatim>\<open>messages: null\<close>,
  \<^verbatim>\<open>extend\<close> returns and registers the rule although the object provides neither a
  \<^verbatim>\<open>getMessage\<close> function nor a \<^verbatim>\<open>messages\<close> mapping. \<^verbatim>\<open>merge\<close> tests the same member by
  truthiness and installs no message, so a later failure of the rule throws a \<^verbatim>\<open>TypeError\<close>
  in \<^verbatim>\<open>formatErrorMessage\<close>. The same object with \<^verbatim>\<open>messages\<close> left out is rejected, and the
  validator \<^verbatim>\<open>null\<close> gets a \<^verbatim>\<open>TypeError\<close> from the second guard, not the exception.\<close>

theorem extend_null_messages:
  "fst (extend ex_state ''even''
     (Object \<lparr>v_validate = Predicate ex_in, v_getMessage = None, v_messages = M_null\<rparr>)) = Inr () \<and>
   Rules (snd (extend ex_state ''even''
     (Object \<lparr>v_validate = Predicate ex_in, v_getMessage = None, v_messages = M_null\<rparr>))) ''even'' =
     Some (Predicate ex_in) \<and>
   Messages (snd (extend ex_state ''even''
     (Object \<lparr>v_validate = Predicate ex_in, v_getMessage = None, v_messages = M_null\<rparr>))) =
     Messages ex_state \<and>
   formatErrorMessage (snd (extend ex_state ''even''
     (Object \<lparr>v_validate = Predicate ex_in, v_getMessage = None, v_messages = M_null\<rparr>)))
     ''color'' \<lparr>name = ''even'', params = None\<rparr> = Inl TypeError \<and>
   (\<exists>msg. fst (extend ex_state ''even''
     (Object \<lparr>v_validate = Predicate ex_in, v_getMessage = None,
              v_messages = M_other False None\<rparr>)) = Inl (ValidatorException msg)) \<and>
   fst (extend ex_state ''even'' Nullish) = Inl TypeError"
proof -
  let ?ob = "\<lparr>v_validate = Predicate ex_in, v_getMessage = None, v_messages = M_null\<rparr>"
  have r: "Rules ex_state ''even'' = None"
    by (simp add: ex_state_def ex_Rules_def)
  have e: "extend ex_state ''even'' (Object ?ob) =
      (Inr (), ex_state\<lparr>Rules := (Rules ex_state)(''even'' \<mapsto> Predicate ex_in)\<rparr>)"
    using r by (simp add: extend_def guardExtend_def merge_def truthy_def is_predicate_def
        typeof_object_def)
  have f: "formatErrorMessage (ex_state\<lparr>Rules := (Rules ex_state)(''even'' \<mapsto> Predicate ex_in)\<rparr>)
      ''color'' \<lparr>name = ''even'', params = None\<rparr> = Inl TypeError"
    by (simp add: ex_defs formatErrorMessage_def english_def invoke_def is_function_def)
  have u: "\<exists>msg. fst (extend ex_state ''even''
     (Object \<lparr>v_validate = Predicate ex_in, v_getMessage = None,
              v_messages = M_other False None\<rparr>)) = Inl (ValidatorException msg)"
    using r by (simp add: extend_def guardExtend_def truthy_def is_predicate_def
        typeof_object_def)
  have n: "fst (extend ex_state ''even'' Nullish) = Inl TypeError"
    using r by (simp add: extend_def guardExtend_def truthy_def)
  show ?thesis unfolding e using f u n by simp
qed

end
